theory Spec2Isabelle
  imports Complex_Main
begin

section \<open>JavaScript numbers and strings\<close>

text \<open>
  The front end is JavaScript. A Number is modelled by its exact value: \<open>Fin q\<close> is the
  finite number \<open>q\<close>, and \<open>NaN\<close>, \<open>PInf\<close>, \<open>NInf\<close> are the three values that are
  not finite. The rounding of binary64 arithmetic and the sign of zero are not
  modelled: sums, products and quotients of finite numbers are exact.
  Strings are byte strings; a character of the source outside ASCII stands as its
  UTF-8 bytes.
\<close>

datatype jsnum = NaN | NInf | Fin rat | PInf

fun js_neg :: "jsnum \<Rightarrow> jsnum" where
  "js_neg NaN = NaN"
| "js_neg NInf = PInf"
| "js_neg (Fin a) = Fin (- a)"
| "js_neg PInf = NInf"

text \<open>The relational operators \<open><\<close> and \<open>>\<close>: false as soon as an operand is NaN.\<close>

fun js_lt :: "jsnum \<Rightarrow> jsnum \<Rightarrow> bool" where
  "js_lt NaN b = False"
| "js_lt a NaN = False"
| "js_lt (Fin a) (Fin b) = (a < b)"
| "js_lt NInf NInf = False"
| "js_lt NInf b = True"
| "js_lt a NInf = False"
| "js_lt PInf b = False"
| "js_lt a PInf = True"

definition js_gt :: "jsnum \<Rightarrow> jsnum \<Rightarrow> bool" where
  "js_gt a b = js_lt b a"

text \<open>Strict equality \<open>===\<close> of two numbers, \<open>isNaN\<close>, and the truth value of a number.\<close>

definition js_seq :: "jsnum \<Rightarrow> jsnum \<Rightarrow> bool" where
  "js_seq a b = (a \<noteq> NaN \<and> a = b)"

definition isNaN :: "jsnum \<Rightarrow> bool" where
  "isNaN c = (c = NaN)"

definition truthy :: "jsnum \<Rightarrow> bool" where
  "truthy a = (a \<noteq> NaN \<and> a \<noteq> Fin 0)"

fun js_add :: "jsnum \<Rightarrow> jsnum \<Rightarrow> jsnum" where
  "js_add (Fin a) (Fin b) = Fin (a + b)"
| "js_add NaN b = NaN"
| "js_add a NaN = NaN"
| "js_add PInf NInf = NaN"
| "js_add NInf PInf = NaN"
| "js_add PInf b = PInf"
| "js_add a PInf = PInf"
| "js_add NInf b = NInf"
| "js_add a NInf = NInf"

definition js_sub :: "jsnum \<Rightarrow> jsnum \<Rightarrow> jsnum" where
  "js_sub a b = js_add a (js_neg b)"

fun js_mul :: "jsnum \<Rightarrow> jsnum \<Rightarrow> jsnum" where
  "js_mul (Fin a) (Fin b) = Fin (a * b)"
| "js_mul NaN b = NaN"
| "js_mul a NaN = NaN"
| "js_mul a b =
     (if a = Fin 0 \<or> b = Fin 0 then NaN
      else if js_lt a (Fin 0) = js_lt b (Fin 0) then PInf else NInf)"

text \<open>Division; a zero divisor counts as \<open>+0\<close>.\<close>

fun js_div :: "jsnum \<Rightarrow> jsnum \<Rightarrow> jsnum" where
  "js_div NaN b = NaN"
| "js_div a NaN = NaN"
| "js_div (Fin a) (Fin b) =
     (if b = 0 then (if a = 0 then NaN else if 0 < a then PInf else NInf)
      else Fin (a / b))"
| "js_div (Fin a) b = Fin 0"
| "js_div a (Fin b) = (if js_lt a (Fin 0) = (b < 0) then PInf else NInf)"
| "js_div a b = NaN"

text \<open>\<open>Math.floor\<close>, \<open>Math.round\<close> (halves go up), \<open>Math.max\<close> and \<open>Math.min\<close> of two
  arguments (NaN as soon as one argument is NaN).\<close>

fun Math_floor :: "jsnum \<Rightarrow> jsnum" where
  "Math_floor (Fin a) = Fin (of_int \<lfloor>a\<rfloor>)"
| "Math_floor a = a"

fun Math_round :: "jsnum \<Rightarrow> jsnum" where
  "Math_round (Fin a) = Fin (of_int \<lfloor>a + 1 / 2\<rfloor>)"
| "Math_round a = a"

definition Math_max :: "jsnum \<Rightarrow> jsnum \<Rightarrow> jsnum" where
  "Math_max a b = (if a = NaN \<or> b = NaN then NaN else if js_lt a b then b else a)"

definition Math_min :: "jsnum \<Rightarrow> jsnum \<Rightarrow> jsnum" where
  "Math_min a b = (if a = NaN \<or> b = NaN then NaN else if js_lt b a then b else a)"

subsection \<open>Numbers to strings\<close>

fun digits_of :: "nat \<Rightarrow> string" where
  "digits_of n =
     (if n < 10 then [char_of (48 + n)]
      else digits_of (n div 10) @ [char_of (48 + n mod 10)])"

declare digits_of.simps [simp del]

primrec frac_digits :: "nat \<Rightarrow> rat \<Rightarrow> string" where
  "frac_digits 0 r = []"
| "frac_digits (Suc k) r =
     (if r = 0 then []
      else char_of (48 + nat \<lfloor>r * 10\<rfloor>) # frac_digits k (r * 10 - of_int \<lfloor>r * 10\<rfloor>))"

text \<open>
  \<open>String(x)\<close> and string concatenation with a number. An integral value prints as its
  decimal digits, which is what the runtime prints below \<open>10^21\<close>. A value with a
  fraction prints the digits of its exact decimal expansion, at most twenty of them
  (the runtime prints the shortest digits that read back as the same binary64, and an
  exponent below \<open>10^-6\<close>).
\<close>

fun js_toString :: "jsnum \<Rightarrow> string" where
  "js_toString NaN = ''NaN''"
| "js_toString PInf = ''Infinity''"
| "js_toString NInf = ''-Infinity''"
| "js_toString (Fin q) =
     (let a = \<bar>q\<bar>; ip = \<lfloor>a\<rfloor>; fp = a - of_int ip
      in (if q < 0 then ''-'' else '''') @ digits_of (nat ip)
         @ (if fp = 0 then '''' else ''.'' @ frac_digits 20 fp))"

definition padStart :: "nat \<Rightarrow> char \<Rightarrow> string \<Rightarrow> string" where
  "padStart n c s = replicate (n - length s) c @ s"

text \<open>
  \<open>x.toFixed(f)\<close>: the integer \<open>n\<close> nearest to \<open>x * 10^f\<close> (the larger one of two), printed
  with \<open>f\<close> digits after the point. From \<open>10^21\<close> on the runtime prints \<open>String(x)\<close>.
\<close>

definition toFixed :: "nat \<Rightarrow> jsnum \<Rightarrow> string" where
  "toFixed f x =
     (case x of
        Fin q \<Rightarrow>
          (let a = \<bar>q\<bar>; s = (if q < 0 then ''-'' else '''')
           in if 10 ^ 21 \<le> a then s @ js_toString (Fin a)
              else (let m = padStart (f + 1) (CHR ''0'') (digits_of (nat \<lfloor>a * 10 ^ f + 1 / 2\<rfloor>));
                        k = length m
                    in s @ take (k - f) m @ (if f = 0 then '''' else ''.'' @ drop (k - f) m)))
      | _ \<Rightarrow> js_toString x)"

subsection \<open>Strings to numbers\<close>

text \<open>White space and line terminators of the ASCII range, as \<open>trim\<close> and \<open>parseFloat\<close>
  skip them: TAB, LF, VT, FF, CR and the space.\<close>

definition is_ws :: "char \<Rightarrow> bool" where
  "is_ws c = (of_char c \<in> {9, 10, 11, 12, 13, 32 :: nat})"

definition trim :: "string \<Rightarrow> string" where
  "trim s = rev (dropWhile is_ws (rev (dropWhile is_ws s)))"

definition is_digit :: "char \<Rightarrow> bool" where
  "is_digit c = (48 \<le> (of_char c :: nat) \<and> (of_char c :: nat) \<le> 57)"

definition digits_val :: "string \<Rightarrow> nat" where
  "digits_val ds = foldl (\<lambda>a c. 10 * a + (of_char c - 48)) 0 ds"

definition pow10 :: "int \<Rightarrow> rat" where
  "pow10 e = (if 0 \<le> e then 10 ^ nat e else 1 / 10 ^ nat (- e))"

text \<open>The exponent of the longest prefix that is an ExponentPart (\<open>e\<close> or \<open>E\<close>, an optional
  sign, digits); 0 when there is none.\<close>

definition parse_exponent :: "string \<Rightarrow> int" where
  "parse_exponent s =
     (case s of
        [] \<Rightarrow> 0
      | e # r \<Rightarrow>
          if e = CHR ''e'' \<or> e = CHR ''E'' then
            (let sg = (case r of [] \<Rightarrow> 1 | c # _ \<Rightarrow> if c = CHR ''-'' then - 1 else 1);
                 r' = (case r of [] \<Rightarrow> [] | c # t \<Rightarrow> if c = CHR ''-'' \<or> c = CHR ''+'' then t else r);
                 ds = takeWhile is_digit r'
             in if ds = [] then 0 else sg * int (digits_val ds))
          else 0)"

text \<open>The value of the longest prefix that is a StrUnsignedDecimalLiteral: \<open>Infinity\<close>,
  digits with an optional fraction and exponent, or a point followed by digits and an
  optional exponent. NaN when no prefix is one.\<close>

definition parse_unsigned :: "string \<Rightarrow> jsnum" where
  "parse_unsigned s =
     (if take 8 s = ''Infinity'' then PInf
      else
        (let ip = takeWhile is_digit s; r1 = dropWhile is_digit s
         in case r1 of
              [] \<Rightarrow> if ip = [] then NaN else Fin (of_nat (digits_val ip))
            | c # r2 \<Rightarrow>
                if c = CHR ''.'' then
                  (let fp = takeWhile is_digit r2; r3 = dropWhile is_digit r2
                   in if ip = [] \<and> fp = [] then NaN
                      else Fin ((of_nat (digits_val ip) + of_nat (digits_val fp) / 10 ^ length fp)
                                * pow10 (parse_exponent r3)))
                else if ip = [] then NaN
                else Fin (of_nat (digits_val ip) * pow10 (parse_exponent r1))))"

definition parseFloat :: "string \<Rightarrow> jsnum" where
  "parseFloat s =
     (case dropWhile is_ws s of
        [] \<Rightarrow> NaN
      | c # r \<Rightarrow>
          if c = CHR ''+'' then parse_unsigned r
          else if c = CHR ''-'' then js_neg (parse_unsigned r)
          else parse_unsigned (c # r))"

section \<open>ELDLogs.jsx: the clock label of a remark\<close>

text \<open>
  \<^verbatim>\<open>function fmtHr(hour) {
    const h = Math.floor(hour);
    const m = Math.round((hour - h) * 60);
    const period = h < 12 ? 'AM' : 'PM';
    const dh = h === 0 ? 12 : h > 12 ? h - 12 : h;
    return `${dh}:${String(m).padStart(2, '0')} ${period}`;
  }\<close>
\<close>

definition fmtHr :: "jsnum \<Rightarrow> string" where
  "fmtHr hour =
     (let h = Math_floor hour;
          m = Math_round (js_mul (js_sub hour h) (Fin 60));
          period = (if js_lt h (Fin 12) then ''AM'' else ''PM'');
          dh = (if js_seq h (Fin 0) then Fin 12
                else if js_gt h (Fin 12) then js_sub h (Fin 12) else h)
      in js_toString dh @ '':'' @ padStart 2 (CHR ''0'') (js_toString m) @ '' '' @ period)"

section \<open>TripForm.jsx: validation and submission\<close>

text \<open>
  The form's state \<open>values\<close>. Every field holds the text of its input element; the
  default of \<open>cycle_hours_used\<close> is the number 14, which \<open>parseFloat\<close> reads as the
  string \<open>14\<close>.
\<close>

record form_values =
  current_location :: string
  pickup_location :: string
  dropoff_location :: string
  cycle_hours_used :: string
  driver_name :: string
  carrier_name :: string

definition DEFAULT_VALUES :: form_values where
  "DEFAULT_VALUES =
     \<lparr>current_location = ''Chicago, IL'', pickup_location = ''St. Louis, MO'',
      dropoff_location = ''Dallas, TX'', cycle_hours_used = ''14'',
      driver_name = ''John Doe'', carrier_name = ''ACME Trucking Co.''\<rparr>"

text \<open>The message \<open>Must be 0-70 hrs\<close>, written in the source with an en dash (U+2013).\<close>

definition cycle_error :: string where
  "cycle_error = ''Must be 0'' @ [CHR 0xE2, CHR 0x80, CHR 0x93] @ ''70 hrs''"

text \<open>\<open>validate\<close> returns the object \<open>errs\<close>: its keys in the order they were set, each with
  its message.\<close>

definition validate :: "form_values \<Rightarrow> (string \<times> string) list" where
  "validate values =
     (if trim (current_location values) = [] then [(''current_location'', ''Required'')] else [])
     @ (if trim (pickup_location values) = [] then [(''pickup_location'', ''Required'')] else [])
     @ (if trim (dropoff_location values) = [] then [(''dropoff_location'', ''Required'')] else [])
     @ (let c = parseFloat (cycle_hours_used values)
        in if isNaN c \<or> js_lt c (Fin 0) \<or> js_gt c (Fin 70)
           then [(''cycle_hours_used'', cycle_error)] else [])"

text \<open>The body of the request handed to \<open>onSubmit\<close>.\<close>

record trip_request =
  req_current_location :: string
  req_pickup_location :: string
  req_dropoff_location :: string
  req_cycle_hours_used :: jsnum
  req_driver_name :: string
  req_carrier_name :: string

text \<open>What one submission of the form does: \<open>setErrors(errs)\<close> and nothing else, or one
  call of \<open>onSubmit\<close>.\<close>

datatype submission = SetErrors "(string \<times> string) list" | OnSubmit trip_request

definition handleSubmit :: "form_values \<Rightarrow> submission" where
  "handleSubmit values =
     (let errs = validate values
      in if length (map fst errs) \<noteq> 0 then SetErrors errs
         else OnSubmit
           \<lparr>req_current_location = trim (current_location values),
            req_pickup_location = trim (pickup_location values),
            req_dropoff_location = trim (dropoff_location values),
            req_cycle_hours_used = parseFloat (cycle_hours_used values),
            req_driver_name =
              (if trim (driver_name values) = [] then ''Driver'' else trim (driver_name values)),
            req_carrier_name =
              (if trim (carrier_name values) = [] then ''Motor Carrier''
               else trim (carrier_name values))\<rparr>)"

section \<open>The schedule as the front end receives it\<close>

text \<open>
  The response of \<open>POST /plan-trip/\<close> is JSON. A property that a record may lack is
  an \<open>option\<close>: reading an absent property gives \<open>undefined\<close>, and \<open>undefined\<close> in
  arithmetic is NaN. The object \<open>totals\<close> is the list of its keys and values.
\<close>

definition to_number :: "jsnum option \<Rightarrow> jsnum" where
  "to_number v = (case v of None \<Rightarrow> NaN | Some x \<Rightarrow> x)"

record segment =
  status :: string
  seg_start :: jsnum
  seg_end :: jsnum
  seg_note :: "string option"

record day_log =
  day_num :: jsnum
  totals :: "(string \<times> jsnum) list"
  driven_miles :: jsnum
  timeline :: "segment list"

definition total :: "day_log \<Rightarrow> string \<Rightarrow> jsnum option" where
  "total d k = map_of (totals d) k"

record stop =
  stop_day :: jsnum
  time_str :: string
  miles_in :: "jsnum option"

record trip_stats =
  total_miles :: jsnum
  total_driving_hrs :: jsnum
  trip_days :: jsnum
  n_fuel_stops :: jsnum
  cycle_used_start :: jsnum
  avg_speed_mph :: jsnum

record schedule =
  days :: "day_log list"
  fuel_stops :: "stop list"
  rest_stops :: "stop list"
  stats :: trip_stats

record route =
  geometry :: "(jsnum \<times> jsnum) list"
  distance_mi :: jsnum

section \<open>TripSummary.jsx: cycle hours remaining\<close>

text \<open>
  \<^verbatim>\<open>const totalOnDuty = schedule.days.reduce(
    (sum, d) => sum + d.totals.driving + d.totals.on_duty, 0);
  const cycleRemaining = Math.max(0, 70 - stats.cycle_used_start - totalOnDuty).toFixed(1);\<close>
\<close>

definition totalOnDuty :: "schedule \<Rightarrow> jsnum" where
  "totalOnDuty sch =
     foldl (\<lambda>sum d. js_add (js_add sum (to_number (total d ''driving'')))
                           (to_number (total d ''on_duty'')))
           (Fin 0) (days sch)"

definition cycleRemaining_hrs :: "schedule \<Rightarrow> jsnum" where
  "cycleRemaining_hrs sch =
     Math_max (Fin 0) (js_sub (js_sub (Fin 70) (cycle_used_start (stats sch))) (totalOnDuty sch))"

definition cycleRemaining :: "schedule \<Rightarrow> string" where
  "cycleRemaining sch = toFixed 1 (cycleRemaining_hrs sch)"

text \<open>The card \<open>Cycle Used / Remaining\<close>: its value and its accent.\<close>

definition cycle_card :: "schedule \<Rightarrow> string \<times> string" where
  "cycle_card sch =
     (js_toString (cycle_used_start (stats sch)) @ ''h / ~'' @ cycleRemaining sch @ ''h'',
      if js_lt (parseFloat (cycleRemaining sch)) (Fin 10) then ''red'' else ''green'')"

section \<open>RouteMap.jsx: the markers of fuel stops and rest breaks\<close>

definition latlngs :: "route \<Rightarrow> (jsnum \<times> jsnum) list" where
  "latlngs r = map (\<lambda>(lon, lat). (lat, lon)) (geometry r)"

text \<open>\<open>xs[idx]\<close> for a number \<open>idx\<close>: an element when \<open>idx\<close> is an integer from 0 below the
  length, \<open>undefined\<close> otherwise (also for NaN).\<close>

definition js_index :: "'a list \<Rightarrow> jsnum \<Rightarrow> 'a option" where
  "js_index xs idx =
     (case idx of
        Fin q \<Rightarrow> if of_int \<lfloor>q\<rfloor> = q \<and> 0 \<le> q \<and> nat \<lfloor>q\<rfloor> < length xs
                 then Some (xs ! nat \<lfloor>q\<rfloor>) else None
      | _ \<Rightarrow> None)"

text \<open>
  Both loops compute the position the same way, from the stop's \<open>miles_in\<close>:
  \<^verbatim>\<open>const frac = rs.miles_in / Math.max(totalMiles, 1);
  const idx  = Math.min(Math.floor(frac * totalPts), totalPts - 1);
  const pt   = latlngs[idx];\<close>
\<close>

definition stop_idx :: "route \<Rightarrow> stop \<Rightarrow> jsnum" where
  "stop_idx r s =
     (let totalPts = Fin (of_nat (length (latlngs r)));
          totalMiles = distance_mi r;
          frac = js_div (to_number (miles_in s)) (Math_max totalMiles (Fin 1))
      in Math_min (Math_floor (js_mul frac totalPts)) (js_sub totalPts (Fin 1)))"

definition em_dash :: string where
  "em_dash = [CHR 0xE2, CHR 0x80, CHR 0x94]"

text \<open>A marker: the point handed to \<open>L.marker\<close> (\<open>None\<close> is \<open>undefined\<close>) and the popup.\<close>

definition fuel_marker :: "route \<Rightarrow> stop \<Rightarrow> (jsnum \<times> jsnum) option \<times> string" where
  "fuel_marker r fs =
     (js_index (latlngs r) (stop_idx r fs),
      ''<b>Fuel Stop</b><br>Day '' @ js_toString (stop_day fs) @ '' '' @ em_dash @ '' ''
        @ time_str fs @ ''<br>~''
        @ (case miles_in fs of None \<Rightarrow> ''undefined'' | Some m \<Rightarrow> js_toString m)
        @ '' miles in'')"

definition rest_marker :: "route \<Rightarrow> stop \<Rightarrow> (jsnum \<times> jsnum) option \<times> string" where
  "rest_marker r rs =
     (js_index (latlngs r) (stop_idx r rs),
      ''<b>30-Min Rest Break</b><br>Day '' @ js_toString (stop_day rs) @ '' '' @ em_dash @ '' ''
        @ time_str rs)"

definition stop_markers :: "route \<Rightarrow> schedule \<Rightarrow> ((jsnum \<times> jsnum) option \<times> string) list" where
  "stop_markers r sch = map (fuel_marker r) (fuel_stops sch) @ map (rest_marker r) (rest_stops sch)"

section \<open>App.js: planning a trip\<close>

text \<open>
  The body of the response: \<open>success\<close> is the truth value of \<open>data.success\<close>,
  \<open>resp_error\<close> is \<open>data.error\<close>, and \<open>payload\<close> is everything else (locations, route,
  schedule, meta).
\<close>

record 'd response =
  success :: bool
  resp_error :: "string option"
  payload :: 'd

text \<open>What \<open>axios.post\<close> rejects with: \<open>err.response?.data?.error\<close> (\<open>None\<close> when a link of
  the chain is undefined) and \<open>err.message\<close>.\<close>

record axios_error =
  err_response_data_error :: "string option"
  err_message :: "string option"

datatype 'd outcome = Resolved "'d response" | Rejected axios_error

record 'd app_state =
  loading :: bool
  loadMsg :: string
  error :: string
  tripData :: "'d response option"

text \<open>\<open>a || b\<close> on strings that may be undefined: the empty string and \<open>undefined\<close> are
  false.\<close>

definition or_else :: "string option \<Rightarrow> string \<Rightarrow> string" where
  "or_else a b = (case a of None \<Rightarrow> b | Some s \<Rightarrow> if s = [] then b else s)"

definition ellipsis :: string where
  "ellipsis = [CHR 0xE2, CHR 0x80, CHR 0xA6]"

text \<open>The state while the request is awaited, and the state when \<open>handlePlanTrip\<close> is
  done.\<close>

definition plan_started :: "'d app_state \<Rightarrow> 'd app_state" where
  "plan_started st =
     st\<lparr>error := [], tripData := None, loading := True,
        loadMsg := ''Calculating route & applying FMCSA HOS rules'' @ ellipsis\<rparr>"

definition handlePlanTrip :: "'d app_state \<Rightarrow> 'd outcome \<Rightarrow> 'd app_state" where
  "handlePlanTrip st out =
     (let st1 = plan_started st;
          st2 = (case out of
                   Resolved data \<Rightarrow>
                     if \<not> success data
                     then st1\<lparr>error := or_else (Some (or_else (resp_error data) ''Unknown error''))
                                             ''Request failed.''\<rparr>
                     else st1\<lparr>tripData := Some data\<rparr>
                 | Rejected err \<Rightarrow>
                     st1\<lparr>error := or_else (err_response_data_error err)
                                     (or_else (err_message err) ''Request failed.'')\<rparr>)
      in st2\<lparr>loading := False, loadMsg := []\<rparr>)"

text \<open>What \<open>App\<close> renders below the form: the error banner, the loading card, the results
  (map, summary and logs, all drawn from \<open>tripData\<close>).\<close>

record 'd view =
  banner :: "string option"
  loading_card :: "string option"
  results :: "'d response option"

definition App :: "'d app_state \<Rightarrow> 'd view" where
  "App st =
     \<lparr>banner = (if error st \<noteq> [] then Some ([CHR 0xE2, CHR 0x9A, CHR 0xA0] @ '' '' @ error st) else None),
      loading_card =
        (if loading st then Some (or_else (Some (loadMsg st)) (''Processing'' @ ellipsis)) else None),
      results = (if tripData st \<noteq> None \<and> \<not> loading st then tripData st else None)\<rparr>"

section \<open>ELDLogs.jsx: the daily log sheet\<close>

subsection \<open>Objects used as tables\<close>

text \<open>
  \<open>STATUS_COLOR\<close> and \<open>STATUS_ROW\<close> are object literals read with a computed key,
  \<open>STATUS_ROW[seg.status]\<close>. Such a read finds the object's own properties and, for any
  other key, the properties every object inherits from \<open>Object.prototype\<close>; only a key
  that is neither gives \<open>undefined\<close>. An inherited value is a function or an object, each
  a different one: it is not \<open>undefined\<close>, it is true, and as a number it is NaN.
\<close>

definition Object_prototype_keys :: "string list" where
  "Object_prototype_keys =
     [''constructor'', ''__defineGetter__'', ''__defineSetter__'', ''hasOwnProperty'',
      ''__lookupGetter__'', ''__lookupSetter__'', ''isPrototypeOf'', ''propertyIsEnumerable'',
      ''toString'', ''valueOf'', ''__proto__'', ''toLocaleString'']"

datatype 'a property = Undefined | Own 'a | Inherited string

definition get_prop :: "(string \<times> 'a) list \<Rightarrow> string \<Rightarrow> 'a property" where
  "get_prop obj k =
     (case map_of obj k of
        Some v \<Rightarrow> Own v
      | None \<Rightarrow> if k \<in> set Object_prototype_keys then Inherited k else Undefined)"

definition STATUS_COLOR :: "(string \<times> string) list" where
  "STATUS_COLOR =
     [(''off_duty'', ''#444444''), (''sleeper'', ''#1d4ed8''), (''driving'', ''#d97706''),
      (''on_duty'', ''#047857'')]"

definition STATUS_ROW :: "(string \<times> nat) list" where
  "STATUS_ROW = [(''off_duty'', 0), (''sleeper'', 1), (''driving'', 2), (''on_duty'', 3)]"

text \<open>The labels of the rows, each split at its line break.\<close>

definition ROW_LABELS :: "string list list" where
  "ROW_LABELS =
     [[''1. Off Duty''], [''2. Sleeper'', ''Berth''], [''3. Driving''],
      [''4. On Duty'', ''(Not Driving)'']]"

text \<open>A row read from \<open>STATUS_ROW\<close>, in arithmetic.\<close>

definition row_number :: "nat property \<Rightarrow> jsnum" where
  "row_number row = (case row of Own n \<Rightarrow> Fin (of_nat n) | _ \<Rightarrow> NaN)"

subsection \<open>The calls on the canvas\<close>

text \<open>
  What is assigned to \<open>fillStyle\<close> or \<open>strokeStyle\<close>: a colour, the gradient of the title bar
  (its line and its colour stops), or a value that is neither and that the canvas
  ignores.
\<close>

datatype style =
    Color string
  | LinearGradient jsnum jsnum jsnum jsnum "(jsnum \<times> string) list"
  | NotAStyle

text \<open>
  Drawing is the list of the calls and assignments made on the canvas and its context,
  in the order they are made.
\<close>

datatype cmd =
    SetWidth jsnum
  | SetHeight jsnum
  | SetStyle string string
  | Scale jsnum jsnum
  | FillStyle style
  | StrokeStyle style
  | LineWidth jsnum
  | LineCap string
  | Font string
  | TextAlign string
  | FillRect jsnum jsnum jsnum jsnum
  | StrokeRect jsnum jsnum jsnum jsnum
  | FillText string jsnum jsnum
  | BeginPath
  | MoveTo jsnum jsnum
  | LineTo jsnum jsnum
  | Stroke

datatype js_error = TypeError

text \<open>What the browser supplies: \<open>window.devicePixelRatio\<close>, and the width
  \<open>ctx.measureText\<close> gives a text in the font of the remarks.\<close>

record browser =
  devicePixelRatio :: "jsnum option"
  measureText :: "string \<Rightarrow> rat"

record info =
  info_date :: string
  info_driver :: string
  info_carrier :: string
  info_from :: string
  info_to :: string
  info_dailyMiles :: jsnum
  info_totalMiles :: jsnum
  info_vehicleNo :: string

subsection \<open>Layout constants and colours\<close>

definition CW :: rat where "CW = 900"
definition CH :: rat where "CH = 480"
definition M :: rat where "M = 8"
definition HDR_H :: rat where "HDR_H = 120"
definition GRID_X :: rat where "GRID_X = 88"
definition GRID_TOP :: rat where "GRID_TOP = HDR_H + 28"
definition ROW_H :: rat where "ROW_H = 36"
definition ROWS :: nat where "ROWS = 4"
definition GRID_H :: rat where "GRID_H = of_nat ROWS * ROW_H"
definition TOTAL_X :: rat where "TOTAL_X = CW - 72"
definition GRID_W :: rat where "GRID_W = TOTAL_X - GRID_X - 4"
definition REM_TOP :: rat where "REM_TOP = GRID_TOP + GRID_H + 10"
definition REM_H :: rat where "REM_H = CH - REM_TOP - M - 2"
definition HL :: rat where "HL = M + 8"
definition H1 :: rat where "H1 = M + 35"
definition H2 :: rat where "H2 = H1 + 32"
definition H3 :: rat where "H3 = H2 + 32"
definition COL2 :: rat where "COL2 = CW / 2 - 20"
definition COL3 :: rat where "COL3 = CW * (72 / 100)"
definition RECAP_X :: rat where "RECAP_X = CW - 230"
definition RECAP_Y :: rat where "RECAP_Y = REM_TOP + 4"

lemmas layout_defs =
  CW_def CH_def M_def HDR_H_def GRID_X_def GRID_TOP_def ROW_H_def ROWS_def GRID_H_def
  TOTAL_X_def GRID_W_def REM_TOP_def REM_H_def HL_def H1_def H2_def H3_def COL2_def COL3_def
  RECAP_X_def RECAP_Y_def

definition C_bg :: string where "C_bg = ''#ffffff''"
definition C_black :: string where "C_black = ''#111111''"
definition C_dark :: string where "C_dark = ''#222222''"
definition C_med :: string where "C_med = ''#555555''"
definition C_light :: string where "C_light = ''#aaaaaa''"
definition C_hdr :: string where "C_hdr = ''#0f1f3d''"
definition C_hdr2 :: string where "C_hdr2 = ''#1a3a6e''"

subsection \<open>The sections of \<open>drawELDLog\<close>, in the order of the source\<close>

definition DPR :: "browser \<Rightarrow> jsnum" where
  "DPR env =
     Math_min (case devicePixelRatio env of
                 None \<Rightarrow> Fin 1
               | Some x \<Rightarrow> if truthy x then x else Fin 1)
              (Fin 2)"

definition canvas_setup :: "browser \<Rightarrow> cmd list" where
  "canvas_setup env =
     [SetWidth (js_mul (Fin CW) (DPR env)), SetHeight (js_mul (Fin CH) (DPR env)),
      SetStyle ''width'' ''100%'', SetStyle ''maxWidth'' (js_toString (Fin CW) @ ''px''),
      SetStyle ''height'' ''auto'', Scale (DPR env) (DPR env)]"

definition background :: "cmd list" where
  "background =
     [FillStyle (Color C_bg), FillRect (Fin 0) (Fin 0) (Fin CW) (Fin CH),
      StrokeStyle (Color C_dark), LineWidth (Fin 2),
      StrokeRect (Fin M) (Fin M) (Fin (CW - M * 2)) (Fin (CH - M * 2))]"

definition title_bar :: "cmd list" where
  "title_bar =
     [FillStyle (LinearGradient (Fin M) (Fin M) (Fin (CW - M)) (Fin (M + 24))
                   [(Fin 0, C_hdr), (Fin 1, C_hdr2)]),
      FillRect (Fin M) (Fin M) (Fin (CW - M * 2)) (Fin 24),
      FillStyle (Color ''#ffffff''), Font ''bold 11px Arial'', TextAlign ''center'',
      FillText (''DRIVER'S DAILY LOG  (ONE CALENDAR DAY '' @ em_dash
                @ '' 24 HOURS)  U.S. DEPARTMENT OF TRANSPORTATION'')
               (Fin (CW / 2)) (Fin (M + 16)),
      Font ''7.5px Arial'', TextAlign ''right'', FillStyle (Color ''#aaccff''),
      FillText (''Original '' @ em_dash @ '' Submit to carrier within 13 days  |  Duplicate ''
                @ em_dash @ '' Driver retains 8 days'')
               (Fin (CW - M - 6)) (Fin (M + 16))]"

text \<open>
  \<^verbatim>\<open>function hdrField(label, value, x, y, bold = false)\<close>: the label, the value below it,
  and an underline.
\<close>

definition hdrField :: "string \<Rightarrow> string \<Rightarrow> rat \<Rightarrow> rat \<Rightarrow> bool \<Rightarrow> cmd list" where
  "hdrField label val x y bold =
     [Font ''8px Arial'', FillStyle (Color C_med), FillText label (Fin x) (Fin y),
      Font (if bold then ''bold 11px Arial'' else ''10px Arial''), FillStyle (Color C_dark),
      FillText val (Fin x) (Fin (y + 13)),
      BeginPath, StrokeStyle (Color C_light), LineWidth (Fin (1 / 2)),
      MoveTo (Fin x) (Fin (y + 15)), LineTo (Fin (x + 180)) (Fin (y + 15)), Stroke]"

definition header_fields :: "info \<Rightarrow> cmd list" where
  "header_fields i =
     hdrField ''DATE (Month/Day/Year)'' (info_date i) HL H1 True
     @ hdrField ''DRIVER NAME'' (info_driver i) HL H2 False
     @ hdrField ''CARRIER / COMPANY'' (info_carrier i) HL H3 False
     @ hdrField ''TOTAL MILES DRIVING TODAY'' (js_toString (info_dailyMiles i) @ '' mi'') COL2 H1 True
     @ hdrField ''FROM (City/State)'' (info_from i) COL2 H2 False
     @ hdrField ''TO (City/State)'' (info_to i) COL2 H3 False
     @ hdrField ''VEHICLE NO.'' (info_vehicleNo i) COL3 H1 False
     @ hdrField ''TOTAL TRIP MILES'' (js_toString (info_totalMiles i) @ '' mi'') COL3 H2 False"

definition signature_and_divider :: "cmd list" where
  "signature_and_divider =
     [Font ''italic 8px Arial'', FillStyle (Color C_med), TextAlign ''right'',
      FillText ''I certify that these entries are true and correct'' (Fin (CW - M - 8)) (Fin (H3 + 5)),
      FillText ''_______________________________'' (Fin (CW - M - 8)) (Fin (H3 + 16)),
      FillText ''Driver Signature'' (Fin (CW - M - 8)) (Fin (H3 + 26)),
      StrokeStyle (Color C_dark), LineWidth (Fin (3 / 2)),
      BeginPath, MoveTo (Fin M) (Fin HDR_H), LineTo (Fin (CW - M)) (Fin HDR_H), Stroke]"

text \<open>The labels of the hours: \<open>Mid-\<close>, the numbers 1 to 11, \<open>Noon\<close>, 1 to 11 again,
  \<open>Mid-\<close>; and below the first and the last, \<open>night\<close>.\<close>

definition HOUR_LABELS :: "string list" where
  "HOUR_LABELS =
     [''Mid-''] @ map digits_of [1..<12] @ [''Noon''] @ map digits_of [1..<12] @ [''Mid-'']"

definition HOUR_LABELS2 :: "string list" where
  "HOUR_LABELS2 = [''night''] @ replicate 23 [] @ [''night'']"

definition hour_labels :: "cmd list" where
  "hour_labels =
     [Font ''7px Arial'', FillStyle (Color C_dark)]
     @ concat (map (\<lambda>i. [TextAlign ''center'',
                          FillText (HOUR_LABELS ! i) (Fin (GRID_X + of_nat i / 24 * GRID_W))
                                   (Fin (GRID_TOP - 16)),
                          FillText (HOUR_LABELS2 ! i) (Fin (GRID_X + of_nat i / 24 * GRID_W))
                                   (Fin (GRID_TOP - 8))])
               [0..<length HOUR_LABELS])
     @ [FillStyle (Color C_dark), Font ''bold 7px Arial'', TextAlign ''center'',
        FillText ''TOTAL'' (Fin (TOTAL_X + 30)) (Fin (GRID_TOP - 16)),
        FillText ''HOURS'' (Fin (TOTAL_X + 30)) (Fin (GRID_TOP - 8))]"

text \<open>One row of the grid: its label, its frame, the hour lines, the quarter-hour ticks
  and, in the column at the right, the total of the row:
  \<^verbatim>\<open>const statusKey = ['off_duty', 'sleeper', 'driving', 'on_duty'][row];
  const rowHours  = (dayData.totals[statusKey] || 0).toFixed(2);\<close>\<close>

definition statusKey :: "nat \<Rightarrow> string" where
  "statusKey row = [''off_duty'', ''sleeper'', ''driving'', ''on_duty''] ! row"

definition or_zero :: "jsnum option \<Rightarrow> jsnum" where
  "or_zero v = (case v of None \<Rightarrow> Fin 0 | Some x \<Rightarrow> if truthy x then x else Fin 0)"

definition rowHours :: "day_log \<Rightarrow> nat \<Rightarrow> string" where
  "rowHours dayData row = toFixed 2 (or_zero (total dayData (statusKey row)))"

definition row_label :: "nat \<Rightarrow> cmd list" where
  "row_label row =
     (let RY = GRID_TOP + of_nat row * ROW_H; llines = ROW_LABELS ! row
      in [TextAlign ''right'', FillStyle (Color C_dark)]
         @ (if 1 < length llines
            then [Font ''bold 8px Arial'',
                  FillText (llines ! 0) (Fin (GRID_X - 5)) (Fin (RY + ROW_H / 2 - 4)),
                  Font ''7.5px Arial'',
                  FillText (llines ! 1) (Fin (GRID_X - 5)) (Fin (RY + ROW_H / 2 + 7))]
            else [Font ''bold 8.5px Arial'',
                  FillText (llines ! 0) (Fin (GRID_X - 5)) (Fin (RY + ROW_H / 2 + 4))]))"

definition row_frame :: "nat \<Rightarrow> cmd list" where
  "row_frame row =
     (let RY = GRID_TOP + of_nat row * ROW_H
      in [StrokeStyle (Color C_dark), LineWidth (Fin (3 / 2)),
          StrokeRect (Fin GRID_X) (Fin RY) (Fin GRID_W) (Fin ROW_H)]
         @ concat (map (\<lambda>h. [StrokeStyle (Color (if h = 0 \<or> h = 24 then C_dark
                                                   else if h = 12 then ''#555'' else C_light)),
                              LineWidth (Fin (if h = 0 \<or> h = 24 then 3 / 2
                                              else if h = 12 then 1 else 1 / 2)),
                              BeginPath,
                              MoveTo (Fin (GRID_X + of_nat h / 24 * GRID_W)) (Fin RY),
                              LineTo (Fin (GRID_X + of_nat h / 24 * GRID_W)) (Fin (RY + ROW_H)),
                              Stroke])
                   [0..<25])
         @ concat (map (\<lambda>q. if q mod 4 \<noteq> 0
                            then [StrokeStyle (Color ''#cccccc''), LineWidth (Fin (3 / 10)),
                                  BeginPath,
                                  MoveTo (Fin (GRID_X + of_nat q / 96 * GRID_W)) (Fin RY),
                                  LineTo (Fin (GRID_X + of_nat q / 96 * GRID_W))
                                         (Fin (RY + (if q mod 2 = 0 then ROW_H * (42 / 100)
                                                     else ROW_H * (2 / 10)))),
                                  Stroke]
                            else [])
                   [1..<97]))"

definition row_total :: "day_log \<Rightarrow> nat \<Rightarrow> cmd list" where
  "row_total dayData row =
     [TextAlign ''left'', Font ''bold 11px Arial'',
      FillStyle (Color (map snd STATUS_COLOR ! row)),
      FillText (rowHours dayData row) (Fin (TOTAL_X + 6))
               (Fin (GRID_TOP + of_nat row * ROW_H + ROW_H / 2 + 4))]"

definition grid_rows :: "day_log \<Rightarrow> cmd list" where
  "grid_rows dayData =
     concat (map (\<lambda>row. row_label row @ row_frame row @ row_total dayData row) [0..<ROWS])
     @ [StrokeStyle (Color C_dark), LineWidth (Fin 1),
        StrokeRect (Fin TOTAL_X) (Fin GRID_TOP) (Fin (CW - M - TOTAL_X)) (Fin GRID_H)]"

text \<open>
  The activity lines.
  \<^verbatim>\<open>const validSegs = dayData.timeline.filter(s => STATUS_ROW[s.status] !== undefined);\<close>
  The loop keeps the row and the right end of the segment before (\<open>null\<close> at first).
\<close>

definition validSegs :: "day_log \<Rightarrow> segment list" where
  "validSegs dayData = filter (\<lambda>s. get_prop STATUS_ROW (status s) \<noteq> Undefined) (timeline dayData)"

definition style_of :: "string property \<Rightarrow> style" where
  "style_of c = (case c of Own s \<Rightarrow> Color s | _ \<Rightarrow> NotAStyle)"

definition seg_x :: "jsnum \<Rightarrow> jsnum" where
  "seg_x t = js_add (Fin GRID_X) (js_mul (js_div t (Fin 24)) (Fin GRID_W))"

definition row_cy :: "nat property \<Rightarrow> jsnum" where
  "row_cy row =
     js_add (js_add (Fin GRID_TOP) (js_mul (row_number row) (Fin ROW_H))) (Fin (ROW_H / 2))"

fun activity_lines :: "nat property option \<Rightarrow> jsnum option \<Rightarrow> segment list \<Rightarrow> cmd list" where
  "activity_lines prevRow prevEndX [] = []"
| "activity_lines prevRow prevEndX (seg # segs) =
     (let row = get_prop STATUS_ROW (status seg);
          sx = seg_x (seg_start seg);
          ex = seg_x (seg_end seg);
          cy = row_cy row;
          col = get_prop STATUS_COLOR (status seg)
      in [StrokeStyle (style_of col), LineWidth (Fin 3), LineCap ''round'']
         @ (case (prevRow, prevEndX) of
              (Some pr, Some px) \<Rightarrow>
                if pr \<noteq> row
                then [BeginPath, MoveTo px (row_cy pr), LineTo px cy, Stroke]
                else []
            | _ \<Rightarrow> [])
         @ [BeginPath, MoveTo sx cy, LineTo ex cy, Stroke]
         @ activity_lines (Some row) (Some ex) segs)"

text \<open>
  The remarks.
  \<^verbatim>\<open>const noteSegs = validSegs.filter(s => s.note && s.status !== 'off_duty');
  noteSegs.forEach((seg, i) => {
    const label = `${fmtHr(seg.start)} - ${seg.note}`;
    const tw    = ctx.measureText(label).width + 22;
    if (rx + tw > CW - M - 8) { rx = M + 8; ry += 14; }
    if (ry > REM_TOP + REM_H - 6) return;
    ctx.fillStyle = STATUS_COLOR[seg.status] || C.dark;
    ctx.fillText(bullet, rx, ry);
    ctx.fillStyle = C.dark;
    ctx.fillText(label, rx + 10, ry);
    rx += tw;
  });\<close>
  (the dash of the label is an em dash, the bullet is U+25CF).
\<close>

definition noteSegs :: "day_log \<Rightarrow> segment list" where
  "noteSegs dayData =
     filter (\<lambda>s. (case seg_note s of None \<Rightarrow> False | Some n \<Rightarrow> n \<noteq> [])
                 \<and> status s \<noteq> ''off_duty'')
            (validSegs dayData)"

definition remark_label :: "segment \<Rightarrow> string" where
  "remark_label seg =
     fmtHr (seg_start seg) @ '' '' @ em_dash @ '' ''
     @ (case seg_note seg of None \<Rightarrow> ''undefined'' | Some n \<Rightarrow> n)"

definition remark_style :: "string property \<Rightarrow> style" where
  "remark_style c =
     (case c of
        Own s \<Rightarrow> Color (if s = [] then C_dark else s)
      | Undefined \<Rightarrow> Color C_dark
      | Inherited k \<Rightarrow> NotAStyle)"

fun remark_entries :: "browser \<Rightarrow> rat \<Rightarrow> rat \<Rightarrow> segment list \<Rightarrow> cmd list" where
  "remark_entries env rx ry [] = []"
| "remark_entries env rx ry (seg # segs) =
     (let label = remark_label seg;
          tw = measureText env label + 22;
          wrap = (rx + tw > CW - M - 8);
          rx1 = (if wrap then M + 8 else rx);
          ry1 = (if wrap then ry + 14 else ry)
      in if ry1 > REM_TOP + REM_H - 6 then remark_entries env rx1 ry1 segs
         else [FillStyle (remark_style (get_prop STATUS_COLOR (status seg))),
               FillText [CHR 0xE2, CHR 0x97, CHR 0x8F] (Fin rx1) (Fin ry1),
               FillStyle (Color C_dark),
               FillText label (Fin (rx1 + 10)) (Fin ry1)]
              @ remark_entries env (rx1 + tw) ry1 segs)"

definition remarks :: "browser \<Rightarrow> day_log \<Rightarrow> cmd list" where
  "remarks env dayData =
     [FillStyle (Color ''#f5f7fa''),
      FillRect (Fin (M + 1)) (Fin REM_TOP) (Fin (CW - M * 2 - 2)) (Fin REM_H),
      StrokeStyle (Color C_dark), LineWidth (Fin 1),
      StrokeRect (Fin M) (Fin REM_TOP) (Fin (CW - M * 2)) (Fin REM_H),
      FillStyle (Color ''#e8ecf4''),
      FillRect (Fin (M + 1)) (Fin (REM_TOP + 1)) (Fin (CW - M * 2 - 2)) (Fin 16),
      Font ''bold 8px Arial'', TextAlign ''left'', FillStyle (Color C_dark),
      FillText (''REMARKS '' @ em_dash
                @ '' City/Town/State where change of duty status occurred (''
                @ [CHR 0xC2, CHR 0xA7] @ ''395.8):'')
               (Fin (M + 6)) (Fin (REM_TOP + 12)),
      Font ''8px Arial'', FillStyle (Color C_dark)]
     @ remark_entries env (M + 8) (REM_TOP + 28) (noteSegs dayData)"

text \<open>
  The recapitulation. Building \<open>recapRows\<close> calls \<open>.toFixed\<close> on \<open>dayData.totals.driving\<close>
  itself, which throws a TypeError when the key is absent; the two sums are NaN then.
\<close>

definition recapRows :: "day_log \<Rightarrow> js_error + (string \<times> string) list" where
  "recapRows dayData =
     (let a = toFixed 2 (js_add (to_number (total dayData ''driving''))
                                (to_number (total dayData ''on_duty''))) @ '' hrs''
      in case total dayData ''driving'' of
           None \<Rightarrow> Inl TypeError
         | Some drv \<Rightarrow>
             Inr [(''A. On Duty Today (Lines 3 & 4)'', a),
                  (''B. Driving Today (Line 3)'', toFixed 2 drv @ '' hrs''),
                  (''C. Off Duty Today (Lines 1 & 2)'',
                   toFixed 2 (js_add (to_number (total dayData ''off_duty''))
                                     (to_number (total dayData ''sleeper''))) @ '' hrs'')])"

definition recap_title :: "cmd list" where
  "recap_title =
     [Font ''bold 7.5px Arial'', FillStyle (Color C_dark), TextAlign ''left'',
      FillText ''RECAPITULATION:'' (Fin RECAP_X) (Fin (RECAP_Y + 11))]"

definition recap_lines :: "(string \<times> string) list \<Rightarrow> cmd list" where
  "recap_lines rows =
     [Font ''7.5px Arial'']
     @ concat (map (\<lambda>i. [TextAlign ''left'', FillStyle (Color C_med),
                          FillText (fst (rows ! i)) (Fin RECAP_X) (Fin (RECAP_Y + 23 + of_nat i * 13)),
                          TextAlign ''right'', FillStyle (Color C_dark), Font ''bold 7.5px Arial'',
                          FillText (snd (rows ! i)) (Fin (CW - M - 8))
                                   (Fin (RECAP_Y + 23 + of_nat i * 13)),
                          Font ''7.5px Arial''])
               [0..<length rows])"

text \<open>\<open>drawELDLog\<close>: the calls made, and the error that ended it, if one did.\<close>

definition drawELDLog :: "browser \<Rightarrow> day_log \<Rightarrow> info \<Rightarrow> cmd list \<times> js_error option" where
  "drawELDLog env dayData i =
     (let drawn =
            canvas_setup env @ background @ title_bar
            @ [FillStyle (Color C_black), TextAlign ''left'']
            @ header_fields i
            @ signature_and_divider @ hour_labels @ grid_rows dayData
            @ activity_lines None None (validSegs dayData)
            @ remarks env dayData @ recap_title
      in case recapRows dayData of
           Inl e \<Rightarrow> (drawn, Some e)
         | Inr rows \<Rightarrow> (drawn @ recap_lines rows, None))"

subsection \<open>The component of one day\<close>

record meta =
  meta_driverName :: "string option"
  meta_carrierName :: "string option"
  meta_from :: "string option"
  meta_to :: "string option"
  meta_totalMiles :: "jsnum option"

definition info_of :: "day_log \<Rightarrow> string \<Rightarrow> meta \<Rightarrow> info" where
  "info_of day dateStr m =
     \<lparr>info_date = dateStr,
      info_driver = or_else (meta_driverName m) ''Driver'',
      info_carrier = or_else (meta_carrierName m) ''Motor Carrier'',
      info_from = or_else (meta_from m) em_dash,
      info_to = or_else (meta_to m) em_dash,
      info_dailyMiles = or_zero (Some (driven_miles day)),
      info_totalMiles = or_zero (Some (Math_round (to_number (meta_totalMiles m)))),
      info_vehicleNo = ''TRK-'' @ js_toString (js_add (Fin 1000) (day_num day))\<rparr>"

text \<open>
  The header of the block, computed while the component renders:
  \<^verbatim>\<open>const driven  = totals.driving.toFixed(2);
  const onDuty  = totals.on_duty.toFixed(2);
  const offDuty = (totals.off_duty + totals.sleeper).toFixed(2);\<close>
  A TypeError here ends the rendering, and the effect that draws the canvas never runs.
\<close>

record day_view =
  title :: string
  pill_drive :: string
  pill_on_duty :: string
  pill_off_duty :: string
  canvas :: "cmd list"
  draw_error :: "js_error option"

definition pills :: "day_log \<Rightarrow> js_error + string \<times> string \<times> string" where
  "pills day =
     (case total day ''driving'' of
        None \<Rightarrow> Inl TypeError
      | Some drv \<Rightarrow>
          (case total day ''on_duty'' of
             None \<Rightarrow> Inl TypeError
           | Some ond \<Rightarrow>
               Inr (toFixed 2 drv, toFixed 2 ond,
                    toFixed 2 (js_add (to_number (total day ''off_duty''))
                                      (to_number (total day ''sleeper''))))))"

definition DayLog :: "browser \<Rightarrow> day_log \<Rightarrow> string \<Rightarrow> meta \<Rightarrow> js_error + day_view" where
  "DayLog env day dateStr m =
     (case pills day of
        Inl e \<Rightarrow> Inl e
      | Inr (driven, onDuty, offDuty) \<Rightarrow>
          (let drawn = drawELDLog env day (info_of day dateStr m)
           in Inr \<lparr>title = ''Day '' @ js_toString (day_num day) @ '' '' @ em_dash @ '' '' @ dateStr,
                   pill_drive = [CHR 0xF0, CHR 0x9F, CHR 0x9A, CHR 0x9B] @ '' Drive '' @ driven @ ''h'',
                   pill_on_duty = [CHR 0xF0, CHR 0x9F, CHR 0x93, CHR 0x8B] @ '' On Duty '' @ onDuty @ ''h'',
                   pill_off_duty = [CHR 0xF0, CHR 0x9F, CHR 0x92, CHR 0xA4] @ '' Off Duty '' @ offDuty @ ''h'',
                   canvas = fst drawn, draw_error = snd drawn\<rparr>))"

section \<open>The scheduling engine\<close>

text \<open>
  Modelled from the spec: the engine \<open>plan\<close> (the back end's \<open>hos_calculator.py\<close>) is not
  among the source files; sections 3, 4 and 7 of the specification are its only
  description. What follows is that description, one definition for each component:
  DutyClock (4.1), RuleEngine (4.2), StopPlanner (4.3), ScheduleBuilder (4.4) and
  TripStatsAggregator (4.5). Hours and miles are exact rationals.
\<close>

datatype DutyStatus = off_duty | sleeper | driving | on_duty

datatype PlanningError = InvalidInput | CycleExceeded | InternalInvariantViolation

record TripInput =
  ti_distance_mi :: rat
  ti_cycle_hours_used_start :: rat
  ti_driver :: string
  ti_carrier :: string

definition avg_speed :: rat where "avg_speed = 55"
definition pickup_hours :: rat where "pickup_hours = 1"
definition dropoff_hours :: rat where "dropoff_hours = 1"

record DutySegment =
  ds_status :: DutyStatus
  start_hour :: rat
  end_hour :: rat
  ds_note :: "string option"

record StopEvent =
  ev_day :: int
  elapsed_hour_in_day :: rat
  ev_miles_in :: rat

subsection \<open>DutyClock\<close>

record DutyClock =
  driving_hrs_this_shift :: rat
  duty_hrs_this_window :: rat
  driving_hrs_since_break :: rat
  cycle_hrs_used :: rat
  miles_since_fuel :: rat
  miles_traveled :: rat

definition advance_driving :: "rat \<Rightarrow> rat \<Rightarrow> DutyClock \<Rightarrow> DutyClock" where
  "advance_driving h miles c =
     c\<lparr>driving_hrs_this_shift := driving_hrs_this_shift c + h,
       duty_hrs_this_window := duty_hrs_this_window c + h,
       driving_hrs_since_break := driving_hrs_since_break c + h,
       cycle_hrs_used := cycle_hrs_used c + h,
       miles_since_fuel := miles_since_fuel c + miles,
       miles_traveled := miles_traveled c + miles\<rparr>"

definition advance_on_duty :: "rat \<Rightarrow> DutyClock \<Rightarrow> DutyClock" where
  "advance_on_duty h c =
     c\<lparr>duty_hrs_this_window := duty_hrs_this_window c + h,
       cycle_hrs_used := cycle_hrs_used c + h\<rparr>"

text \<open>Modelled from the spec: an off-duty block of ten hours or more resets the shift; a shorter one leaves the
  driving of the shift as it is and runs on the duty window, which breaks do not extend
  (invariant 3 of section 3).\<close>

definition advance_off_duty :: "rat \<Rightarrow> DutyClock \<Rightarrow> DutyClock" where
  "advance_off_duty h c =
     (if 10 \<le> h
      then c\<lparr>driving_hrs_this_shift := 0, duty_hrs_this_window := 0,
             driving_hrs_since_break := 0\<rparr>
      else c\<lparr>duty_hrs_this_window := duty_hrs_this_window c + h\<rparr>)"

definition reset_break :: "DutyClock \<Rightarrow> DutyClock" where
  "reset_break c = c\<lparr>driving_hrs_since_break := 0\<rparr>"

subsection \<open>RuleEngine and StopPlanner\<close>

record EngineState =
  clock :: DutyClock
  remaining_mi :: rat
  elapsed :: rat
  emitted :: "DutySegment list"
  fuel_events :: "StopEvent list"
  rest_events :: "StopEvent list"

definition emit :: "DutyStatus \<Rightarrow> rat \<Rightarrow> string option \<Rightarrow> EngineState \<Rightarrow> EngineState" where
  "emit s h n st =
     st\<lparr>emitted := emitted st @ [\<lparr>ds_status = s, start_hour = elapsed st,
                                   end_hour = elapsed st + h, ds_note = n\<rparr>],
        elapsed := elapsed st + h\<rparr>"

text \<open>Modelled from the spec: StopPlanner: the day is the elapsed hours over 24, floored, counted from 1; the
  time of day is the elapsed hours modulo 24.\<close>

definition stop_event :: "EngineState \<Rightarrow> StopEvent" where
  "stop_event st =
     \<lparr>ev_day = \<lfloor>elapsed st / 24\<rfloor> + 1,
      elapsed_hour_in_day = elapsed st - 24 * of_int \<lfloor>elapsed st / 24\<rfloor>,
      ev_miles_in = miles_traveled (clock st)\<rparr>"

text \<open>Modelled from the spec: the hours to drive in a step: up to the end of the trip or the nearest of the four
  thresholds (8 hours since the break, 1000 miles since fuel, 11 hours of driving in the
  shift, 14 hours of duty window), and not less than nothing.\<close>

definition next_drive :: "EngineState \<Rightarrow> rat" where
  "next_drive st =
     (let c = clock st
      in max 0 (min (remaining_mi st / avg_speed)
               (min (8 - driving_hrs_since_break c)
               (min ((1000 - miles_since_fuel c) / avg_speed)
               (min (11 - driving_hrs_this_shift c)
                    (14 - duty_hrs_this_window c))))))"

definition drive_for :: "rat \<Rightarrow> EngineState \<Rightarrow> EngineState" where
  "drive_for d st =
     (if 0 < d
      then (emit driving d None st)
             \<lparr>clock := advance_driving d (d * avg_speed) (clock st),
               remaining_mi := remaining_mi st - d * avg_speed\<rparr>
      else st)"

text \<open>Modelled from the spec: the trigger that fires after the driving of a step; of several reached at once,
  the first in the order break, fuel, drive limit, window limit.\<close>

datatype Trigger = Break | Fuel | DriveLimit | WindowLimit

definition fired :: "DutyClock \<Rightarrow> Trigger option" where
  "fired c =
     (if 8 \<le> driving_hrs_since_break c then Some Break
      else if 1000 \<le> miles_since_fuel c then Some Fuel
      else if 11 \<le> driving_hrs_this_shift c then Some DriveLimit
      else if 14 \<le> duty_hrs_this_window c then Some WindowLimit
      else None)"

definition take_break :: "EngineState \<Rightarrow> EngineState" where
  "take_break st =
     (emit off_duty (1 / 2) (Some ''30-min break'') st)
       \<lparr>clock := reset_break (advance_off_duty (1 / 2) (clock st)),
         rest_events := rest_events st @ [stop_event st]\<rparr>"

definition take_fuel :: "EngineState \<Rightarrow> EngineState" where
  "take_fuel st =
     st\<lparr>clock := (clock st)\<lparr>miles_since_fuel := 0\<rparr>,
        fuel_events := fuel_events st @ [stop_event st]\<rparr>"

definition end_shift :: "EngineState \<Rightarrow> EngineState" where
  "end_shift st = (emit off_duty 10 None st)\<lparr>clock := advance_off_duty 10 (clock st)\<rparr>"

text \<open>Modelled from the spec: the cycle check after a committed segment.\<close>

definition check_cycle :: "EngineState \<Rightarrow> PlanningError + EngineState" where
  "check_cycle st = (if 70 < cycle_hrs_used (clock st) then Inl CycleExceeded else Inr st)"

definition apply_trigger :: "EngineState \<Rightarrow> EngineState" where
  "apply_trigger st =
     (case fired (clock st) of
        None \<Rightarrow> st
      | Some Break \<Rightarrow> take_break st
      | Some Fuel \<Rightarrow> take_fuel st
      | Some DriveLimit \<Rightarrow> end_shift st
      | Some WindowLimit \<Rightarrow> end_shift st)"

definition step :: "EngineState \<Rightarrow> PlanningError + EngineState" where
  "step st =
     (case check_cycle (drive_for (next_drive st) st) of
        Inl e \<Rightarrow> Inl e
      | Inr st1 \<Rightarrow> Inr (apply_trigger st1))"

text \<open>Modelled from the spec: the accounting checks whose failure is an InternalInvariantViolation: no counter
  of the clock is negative.\<close>

definition clock_ok :: "DutyClock \<Rightarrow> bool" where
  "clock_ok c =
     (0 \<le> driving_hrs_this_shift c \<and> 0 \<le> duty_hrs_this_window c
      \<and> 0 \<le> driving_hrs_since_break c \<and> 0 \<le> miles_since_fuel c)"

text \<open>What is left to happen, as a number that every step lowers: the breaks, fuel
  stops and shift ends still to come, counted from the hours and miles that remain.\<close>

definition breaks_left :: "EngineState \<Rightarrow> int" where
  "breaks_left st = \<lfloor>(remaining_mi st / avg_speed + driving_hrs_since_break (clock st)) / 8\<rfloor>"

definition fuels_left :: "EngineState \<Rightarrow> int" where
  "fuels_left st = \<lfloor>(remaining_mi st + miles_since_fuel (clock st)) / 1000\<rfloor>"

definition drive_limits_left :: "EngineState \<Rightarrow> int" where
  "drive_limits_left st = \<lfloor>(remaining_mi st / avg_speed + driving_hrs_this_shift (clock st)) / 11\<rfloor>"

definition window_limits_left :: "EngineState \<Rightarrow> int" where
  "window_limits_left st =
     \<lfloor>(remaining_mi st / avg_speed + duty_hrs_this_window (clock st)
        + of_int (max 0 (breaks_left st)) / 2) / 14\<rfloor>"

definition steps_left :: "EngineState \<Rightarrow> nat" where
  "steps_left st =
     2 * (nat (breaks_left st) + nat (fuels_left st) + nat (drive_limits_left st)
          + nat (window_limits_left st))
     + (if 0 < remaining_mi st then 1 else 0)"

text \<open>The engine runs step after step until no distance remains. That it stops is
  shown first: driving leaves the four counts as they are and every trigger lowers
  one of them.\<close>

lemma floor_step:
  fixes a b c :: rat
  assumes "0 < c" and "b + c \<le> a"
  shows "\<lfloor>b / c\<rfloor> + 1 \<le> \<lfloor>a / c\<rfloor>"
proof -
  have "\<lfloor>b / c\<rfloor> + 1 = \<lfloor>b / c + 1\<rfloor>" by simp
  also have "b / c + 1 = (b + c) / c" using assms(1) by (simp add: field_simps)
  also have "\<lfloor>(b + c) / c\<rfloor> \<le> \<lfloor>a / c\<rfloor>"
    using assms by (intro floor_mono divide_right_mono) simp_all
  finally show ?thesis .
qed

lemma floor_div_mono:
  fixes a b c :: rat
  assumes "0 < c" and "b \<le> a"
  shows "\<lfloor>b / c\<rfloor> \<le> \<lfloor>a / c\<rfloor>"
  using assms by (intro floor_mono divide_right_mono) simp_all

lemma floor_div_nonneg:
  fixes a c :: rat
  assumes "0 < c" and "0 \<le> a"
  shows "0 \<le> \<lfloor>a / c\<rfloor>"
  using assms by simp

lemma drive_for_clock:
  "0 \<le> d \<Longrightarrow> clock (drive_for d st) = advance_driving d (d * avg_speed) (clock st)"
  by (cases "d = 0") (simp_all add: drive_for_def emit_def advance_driving_def)

lemma drive_for_remaining:
  "0 \<le> d \<Longrightarrow> remaining_mi (drive_for d st) = remaining_mi st - d * avg_speed"
  by (cases "d = 0") (simp_all add: drive_for_def emit_def)

lemma next_drive_nonneg: "0 \<le> next_drive st"
  by (simp add: next_drive_def Let_def)

lemma next_drive_le: "0 < remaining_mi st \<Longrightarrow> next_drive st * avg_speed \<le> remaining_mi st"
  by (simp add: next_drive_def Let_def avg_speed_def max_def min_def)

lemma fired_None_trip_done:
  assumes "0 < remaining_mi st" and "fired (clock (drive_for (next_drive st) st)) = None"
  shows "remaining_mi (drive_for (next_drive st) st) \<le> 0"
proof -
  let ?d = "next_drive st"
  note c = drive_for_clock [OF next_drive_nonneg, of st]
  from assms(2) have lt: "driving_hrs_since_break (clock st) + ?d < 8"
      "miles_since_fuel (clock st) + ?d * avg_speed < 1000"
      "driving_hrs_this_shift (clock st) + ?d < 11"
      "duty_hrs_this_window (clock st) + ?d < 14"
    unfolding c by (simp_all add: fired_def advance_driving_def split: if_splits)
  have "?d = remaining_mi st / avg_speed"
    using lt assms(1) unfolding next_drive_def Let_def avg_speed_def
    by (auto simp: max_def min_def field_simps split: if_splits)
  then show ?thesis
    by (simp add: drive_for_remaining next_drive_nonneg avg_speed_def)
qed

lemma drive_for_breaks_left:
  "0 \<le> d \<Longrightarrow> breaks_left (drive_for d st) = breaks_left st"
  by (simp add: breaks_left_def drive_for_clock drive_for_remaining advance_driving_def
        avg_speed_def field_simps)

lemma drive_for_fuels_left:
  "0 \<le> d \<Longrightarrow> fuels_left (drive_for d st) = fuels_left st"
  by (simp add: fuels_left_def drive_for_clock drive_for_remaining advance_driving_def)

lemma drive_for_drive_limits_left:
  "0 \<le> d \<Longrightarrow> drive_limits_left (drive_for d st) = drive_limits_left st"
  by (simp add: drive_limits_left_def drive_for_clock drive_for_remaining advance_driving_def
        avg_speed_def field_simps)

lemma drive_for_window_limits_left:
  "0 \<le> d \<Longrightarrow> window_limits_left (drive_for d st) = window_limits_left st"
  unfolding window_limits_left_def
  by (simp add: drive_for_breaks_left)
     (simp add: drive_for_clock drive_for_remaining advance_driving_def avg_speed_def field_simps)

lemma drive_for_clock_ok:
  "0 \<le> d \<Longrightarrow> clock_ok (clock st) \<Longrightarrow> clock_ok (clock (drive_for d st))"
  by (simp add: clock_ok_def drive_for_clock advance_driving_def avg_speed_def)

text \<open>The effect of each trigger on what is left.\<close>

lemma take_break_left:
  assumes "clock_ok (clock st)" and "0 \<le> remaining_mi st"
    and "8 \<le> driving_hrs_since_break (clock st)"
  shows "breaks_left (take_break st) + 1 \<le> breaks_left st"
    and "0 \<le> breaks_left (take_break st)"
    and "fuels_left (take_break st) = fuels_left st"
    and "drive_limits_left (take_break st) = drive_limits_left st"
    and "window_limits_left (take_break st) \<le> window_limits_left st"
proof -
  have r: "remaining_mi (take_break st) = remaining_mi st"
    and sb: "driving_hrs_since_break (clock (take_break st)) = 0"
    and w: "duty_hrs_this_window (clock (take_break st)) = duty_hrs_this_window (clock st) + 1 / 2"
    and sh: "driving_hrs_this_shift (clock (take_break st)) = driving_hrs_this_shift (clock st)"
    and mf: "miles_since_fuel (clock (take_break st)) = miles_since_fuel (clock st)"
    by (simp_all add: take_break_def emit_def reset_break_def advance_off_duty_def)
  show b: "breaks_left (take_break st) + 1 \<le> breaks_left st"
    unfolding breaks_left_def r sb using assms(3)
    by (intro floor_step) simp_all
  show b0: "0 \<le> breaks_left (take_break st)"
    unfolding breaks_left_def r sb using assms(2) by (simp add: avg_speed_def)
  show "fuels_left (take_break st) = fuels_left st"
    by (simp add: fuels_left_def r mf)
  show "drive_limits_left (take_break st) = drive_limits_left st"
    by (simp add: drive_limits_left_def r sh)
  have "(of_int (max 0 (breaks_left (take_break st))) :: rat) + 1 \<le> of_int (max 0 (breaks_left st))"
    using b b0 by (simp add: max_def)
  then have "remaining_mi st / avg_speed + (duty_hrs_this_window (clock st) + 1 / 2)
          + of_int (max 0 (breaks_left (take_break st))) / 2
          \<le> remaining_mi st / avg_speed + duty_hrs_this_window (clock st)
             + of_int (max 0 (breaks_left st)) / 2"
    by linarith
  then show "window_limits_left (take_break st) \<le> window_limits_left st"
    unfolding window_limits_left_def r w
    by (intro floor_div_mono) simp_all
qed

lemma take_fuel_left:
  assumes "0 \<le> remaining_mi st" and "1000 \<le> miles_since_fuel (clock st)"
  shows "fuels_left (take_fuel st) + 1 \<le> fuels_left st"
    and "0 \<le> fuels_left (take_fuel st)"
    and "breaks_left (take_fuel st) = breaks_left st"
    and "drive_limits_left (take_fuel st) = drive_limits_left st"
    and "window_limits_left (take_fuel st) = window_limits_left st"
proof -
  show "fuels_left (take_fuel st) + 1 \<le> fuels_left st"
    unfolding fuels_left_def using assms(2)
    by (intro floor_step) (simp_all add: take_fuel_def)
  show "0 \<le> fuels_left (take_fuel st)"
    unfolding fuels_left_def using assms(1) by (simp add: take_fuel_def)
  show b: "breaks_left (take_fuel st) = breaks_left st"
    by (simp add: breaks_left_def take_fuel_def)
  show "drive_limits_left (take_fuel st) = drive_limits_left st"
    by (simp add: drive_limits_left_def take_fuel_def)
  show "window_limits_left (take_fuel st) = window_limits_left st"
    unfolding window_limits_left_def b by (simp add: take_fuel_def)
qed

lemma end_shift_left:
  assumes "clock_ok (clock st)" and "0 \<le> remaining_mi st"
  shows "breaks_left (end_shift st) \<le> breaks_left st"
    and "fuels_left (end_shift st) = fuels_left st"
    and "drive_limits_left (end_shift st) \<le> drive_limits_left st"
    and "window_limits_left (end_shift st) \<le> window_limits_left st"
    and "11 \<le> driving_hrs_this_shift (clock st) \<Longrightarrow>
           drive_limits_left (end_shift st) + 1 \<le> drive_limits_left st
           \<and> 0 \<le> drive_limits_left (end_shift st)"
    and "14 \<le> duty_hrs_this_window (clock st) \<Longrightarrow>
           window_limits_left (end_shift st) + 1 \<le> window_limits_left st
           \<and> 0 \<le> window_limits_left (end_shift st)"
proof -
  have r: "remaining_mi (end_shift st) = remaining_mi st"
    and sb: "driving_hrs_since_break (clock (end_shift st)) = 0"
    and w: "duty_hrs_this_window (clock (end_shift st)) = 0"
    and sh: "driving_hrs_this_shift (clock (end_shift st)) = 0"
    and mf: "miles_since_fuel (clock (end_shift st)) = miles_since_fuel (clock st)"
    by (simp_all add: end_shift_def emit_def advance_off_duty_def)
  note ok = assms(1) [unfolded clock_ok_def]
  show b: "breaks_left (end_shift st) \<le> breaks_left st"
    unfolding breaks_left_def r sb using ok by (intro floor_div_mono) simp_all
  show "fuels_left (end_shift st) = fuels_left st"
    by (simp add: fuels_left_def r mf)
  show "drive_limits_left (end_shift st) \<le> drive_limits_left st"
    unfolding drive_limits_left_def r sh using ok by (intro floor_div_mono) simp_all
  have m: "(of_int (max 0 (breaks_left (end_shift st))) :: rat) \<le> of_int (max 0 (breaks_left st))"
    using b by (simp add: max_def)
  have "remaining_mi st / avg_speed + 0 + of_int (max 0 (breaks_left (end_shift st))) / 2
          \<le> remaining_mi st / avg_speed + duty_hrs_this_window (clock st)
             + of_int (max 0 (breaks_left st)) / 2"
    using ok m by linarith
  then show "window_limits_left (end_shift st) \<le> window_limits_left st"
    unfolding window_limits_left_def r w
    by (intro floor_div_mono) simp_all
  show "drive_limits_left (end_shift st) + 1 \<le> drive_limits_left st
           \<and> 0 \<le> drive_limits_left (end_shift st)"
    if "11 \<le> driving_hrs_this_shift (clock st)"
  proof
    show "drive_limits_left (end_shift st) + 1 \<le> drive_limits_left st"
      unfolding drive_limits_left_def r sh using that by (intro floor_step) simp_all
    show "0 \<le> drive_limits_left (end_shift st)"
      unfolding drive_limits_left_def r sh using assms(2) by (simp add: avg_speed_def)
  qed
  show "window_limits_left (end_shift st) + 1 \<le> window_limits_left st
           \<and> 0 \<le> window_limits_left (end_shift st)"
    if "14 \<le> duty_hrs_this_window (clock st)"
  proof
    have "remaining_mi st / avg_speed + 0 + of_int (max 0 (breaks_left (end_shift st))) / 2 + 14
          \<le> remaining_mi st / avg_speed + duty_hrs_this_window (clock st)
             + of_int (max 0 (breaks_left st)) / 2"
      using that m by linarith
    then show "window_limits_left (end_shift st) + 1 \<le> window_limits_left st"
      unfolding window_limits_left_def r w by (intro floor_step) simp_all
    have "(0::rat) \<le> of_int (max 0 (breaks_left (end_shift st)))" by simp
    then show "0 \<le> window_limits_left (end_shift st)"
      unfolding window_limits_left_def r w using assms(2) by (simp add: avg_speed_def)
  qed
qed

lemma fired_Some:
  "fired c = Some Break \<Longrightarrow> 8 \<le> driving_hrs_since_break c"
  "fired c = Some Fuel \<Longrightarrow> 1000 \<le> miles_since_fuel c"
  "fired c = Some DriveLimit \<Longrightarrow> 11 \<le> driving_hrs_this_shift c"
  "fired c = Some WindowLimit \<Longrightarrow> 14 \<le> duty_hrs_this_window c"
  by (simp_all add: fired_def split: if_splits)

lemma apply_trigger_decreases:
  assumes ok: "clock_ok (clock st)" and r: "0 \<le> remaining_mi st"
    and f: "fired (clock st) \<noteq> None"
  shows "nat (breaks_left (apply_trigger st)) + nat (fuels_left (apply_trigger st))
         + nat (drive_limits_left (apply_trigger st)) + nat (window_limits_left (apply_trigger st))
         + 1
         \<le> nat (breaks_left st) + nat (fuels_left st) + nat (drive_limits_left st)
           + nat (window_limits_left st)"
proof -
  from f obtain t where t: "fired (clock st) = Some t" by blast
  show ?thesis
  proof (cases t)
    case Break
    with t have a: "apply_trigger st = take_break st" by (simp add: apply_trigger_def)
    from take_break_left [OF ok r fired_Some(1)] t Break
    show ?thesis unfolding a by (simp, linarith?)
  next
    case Fuel
    with t have a: "apply_trigger st = take_fuel st" by (simp add: apply_trigger_def)
    from take_fuel_left [OF r fired_Some(2)] t Fuel
    show ?thesis unfolding a by (simp, linarith?)
  next
    case DriveLimit
    with t have a: "apply_trigger st = end_shift st" by (simp add: apply_trigger_def)
    from end_shift_left(1-4) [OF ok r] end_shift_left(5) [OF ok r fired_Some(3)] t DriveLimit
    show ?thesis unfolding a by (simp, linarith?)
  next
    case WindowLimit
    with t have a: "apply_trigger st = end_shift st" by (simp add: apply_trigger_def)
    from end_shift_left(1-4) [OF ok r] end_shift_left(6) [OF ok r fired_Some(4)] t WindowLimit
    show ?thesis unfolding a by (simp, linarith?)
  qed
qed

lemma step_decreases:
  assumes ok: "clock_ok (clock st)" and r: "0 < remaining_mi st" and s: "step st = Inr st'"
  shows "steps_left st' < steps_left st"
proof -
  let ?d = "next_drive st"
  let ?st1 = "drive_for ?d st"
  note d0 = next_drive_nonneg [of st]
  from s have st': "st' = apply_trigger ?st1"
    by (auto simp: step_def check_cycle_def split: if_splits)
  have ok1: "clock_ok (clock ?st1)" by (rule drive_for_clock_ok [OF d0 ok])
  have r1: "0 \<le> remaining_mi ?st1"
    using next_drive_le [OF r] by (simp add: drive_for_remaining d0)
  have same: "breaks_left ?st1 = breaks_left st" "fuels_left ?st1 = fuels_left st"
    "drive_limits_left ?st1 = drive_limits_left st" "window_limits_left ?st1 = window_limits_left st"
    by (simp_all add: drive_for_breaks_left drive_for_fuels_left drive_for_drive_limits_left
          drive_for_window_limits_left d0)
  show ?thesis
  proof (cases "fired (clock ?st1)")
    case None
    then have "st' = ?st1" by (simp add: st' apply_trigger_def)
    moreover have "remaining_mi ?st1 \<le> 0" by (rule fired_None_trip_done [OF r None])
    ultimately show ?thesis
      using r by (simp add: steps_left_def same)
  next
    case (Some t)
    then have "fired (clock ?st1) \<noteq> None" by simp
    from apply_trigger_decreases [OF ok1 r1 this]
    show ?thesis
      unfolding st' steps_left_def same using r by simp
  qed
qed

text \<open>Modelled from the spec: the loop of the engine: steps until the distance is covered, an error of a step
  ends it, and a clock with a negative counter is an InternalInvariantViolation.\<close>

function run :: "EngineState \<Rightarrow> PlanningError + EngineState" where
  "run st =
     (if \<not> clock_ok (clock st) then Inl InternalInvariantViolation
      else if remaining_mi st \<le> 0 then Inr st
      else (case step st of Inl e \<Rightarrow> Inl e | Inr st' \<Rightarrow> run st'))"
  by pat_completeness auto
termination
  by (relation "measure steps_left") (auto intro: step_decreases)

declare run.simps [simp del]

subsection \<open>ScheduleBuilder\<close>

text \<open>Modelled from the spec: a segment that crosses a 24-hour boundary is split at the boundary, its status and
  note on both parts, and again if the rest crosses the next boundary.\<close>

function split_segment :: "DutySegment \<Rightarrow> DutySegment list" where
  "split_segment s =
     (let b = 24 * (of_int \<lfloor>start_hour s / 24\<rfloor> + 1)
      in if end_hour s \<le> b then [s]
         else s\<lparr>end_hour := b\<rparr> # split_segment (s\<lparr>start_hour := b\<rparr>))"
  by pat_completeness auto
termination
proof (relation "measure (\<lambda>s. nat (\<lceil>end_hour s / 24\<rceil> - \<lfloor>start_hour s / 24\<rfloor>))", goal_cases)
  case 1
  show ?case by simp
next
  case (2 s b)
  define k where "k = \<lfloor>start_hour s / 24\<rfloor>"
  from 2 have b: "b = 24 * (of_int k + 1)" and e: "b < end_hour s"
    by (simp_all add: k_def)
  have "(of_int (k + 1) :: rat) < end_hour s / 24" using e by (simp add: b)
  then have "k + 1 < \<lceil>end_hour s / 24\<rceil>" by (simp add: less_ceiling_iff)
  moreover have "\<lfloor>b / 24\<rfloor> = k + 1"
  proof -
    have "b / 24 = of_int (k + 1)" by (simp add: b)
    then show ?thesis by (simp only: floor_of_int)
  qed
  ultimately show ?case
    by (simp add: k_def [symmetric])
qed

declare split_segment.simps [simp del]

text \<open>Modelled from the spec: the day of a piece (counted from 0 here), the piece in the hours of its day, and
  the fold of the pieces into the buckets of the days.\<close>

definition day_index :: "DutySegment \<Rightarrow> nat" where
  "day_index p = nat \<lfloor>start_hour p / 24\<rfloor>"

definition to_day_window :: "DutySegment \<Rightarrow> DutySegment" where
  "to_day_window p =
     p\<lparr>start_hour := start_hour p - 24 * of_nat (day_index p),
       end_hour := end_hour p - 24 * of_nat (day_index p)\<rparr>"

definition place :: "DutySegment list list \<Rightarrow> DutySegment \<Rightarrow> DutySegment list list" where
  "place bs p =
     (let k = day_index p; bs' = bs @ replicate (k + 1 - length bs) []
      in bs'[k := bs' ! k @ [to_day_window p]])"

definition buckets :: "DutySegment list \<Rightarrow> DutySegment list list" where
  "buckets segs = foldl place [] (concat (map split_segment segs))"

definition duration :: "DutySegment \<Rightarrow> rat" where
  "duration s = end_hour s - start_hour s"

definition status_total :: "DutySegment list \<Rightarrow> DutyStatus \<Rightarrow> rat" where
  "status_total segs st = sum_list (map duration (filter (\<lambda>s. ds_status s = st) segs))"

record Day_Log =
  dl_day_num :: nat
  dl_segments :: "DutySegment list"
  dl_totals :: "DutyStatus \<Rightarrow> rat"
  dl_driven_miles :: rat

text \<open>Modelled from the spec: the miles of a day are the trip's distance in the proportion of the day's driving
  to all the driving.\<close>

definition build_days :: "rat \<Rightarrow> DutySegment list \<Rightarrow> Day_Log list" where
  "build_days total_mi segs =
     map (\<lambda>(k, b).
            \<lparr>dl_day_num = k + 1, dl_segments = b, dl_totals = status_total b,
             dl_driven_miles =
               (if status_total segs driving = 0 then 0
                else total_mi * (status_total b driving / status_total segs driving))\<rparr>)
         (enumerate 0 (buckets segs))"

subsection \<open>TripStatsAggregator and \<open>plan\<close>\<close>

record TripStats =
  ts_total_miles :: rat
  ts_total_driving_hrs :: rat
  ts_trip_days :: nat
  ts_fuel_stops :: nat
  ts_cycle_used_start :: rat
  ts_avg_speed_mph :: rat

record ScheduleResult =
  sr_days :: "Day_Log list"
  sr_fuel_stops :: "StopEvent list"
  sr_rest_stops :: "StopEvent list"
  sr_trip_stats :: TripStats

definition build :: "TripInput \<Rightarrow> EngineState \<Rightarrow> ScheduleResult" where
  "build ti st =
     (let ds = build_days (ti_distance_mi ti) (emitted st)
      in \<lparr>sr_days = ds, sr_fuel_stops = fuel_events st, sr_rest_stops = rest_events st,
          sr_trip_stats =
            \<lparr>ts_total_miles = ti_distance_mi ti,
             ts_total_driving_hrs = status_total (emitted st) driving,
             ts_trip_days = length ds, ts_fuel_stops = length (fuel_events st),
             ts_cycle_used_start = ti_cycle_hours_used_start ti,
             ts_avg_speed_mph = avg_speed\<rparr>\<rparr>)"

definition initial_state :: "TripInput \<Rightarrow> EngineState" where
  "initial_state ti =
     \<lparr>clock = \<lparr>driving_hrs_this_shift = 0, duty_hrs_this_window = 0,
               driving_hrs_since_break = 0,
               cycle_hrs_used = ti_cycle_hours_used_start ti,
               miles_since_fuel = 0, miles_traveled = 0\<rparr>,
      remaining_mi = ti_distance_mi ti, elapsed = 0, emitted = [],
      fuel_events = [], rest_events = []\<rparr>"

definition do_pickup :: "EngineState \<Rightarrow> EngineState" where
  "do_pickup st =
     (emit on_duty pickup_hours (Some ''Pickup'') st)
       \<lparr>clock := advance_on_duty pickup_hours (clock st)\<rparr>"

text \<open>Modelled from the spec: the drop-off follows the last driving; when its hour would run the duty window
  over 14 hours, the shift ends first, as in step 4.\<close>

definition do_dropoff :: "EngineState \<Rightarrow> EngineState" where
  "do_dropoff st =
     (let st1 = (if 14 < duty_hrs_this_window (clock st) + dropoff_hours then end_shift st
                 else st)
      in (emit on_duty dropoff_hours (Some ''Dropoff'') st1)
           \<lparr>clock := advance_on_duty dropoff_hours (clock st1)\<rparr>)"

definition plan :: "TripInput \<Rightarrow> PlanningError + ScheduleResult" where
  "plan ti =
     (if ti_distance_mi ti \<le> 0 \<or> ti_cycle_hours_used_start ti < 0
         \<or> 70 < ti_cycle_hours_used_start ti
      then Inl InvalidInput
      else (case check_cycle (do_pickup (initial_state ti)) of
              Inl e \<Rightarrow> Inl e
            | Inr st0 \<Rightarrow>
                (case run st0 of
                   Inl e \<Rightarrow> Inl e
                 | Inr st1 \<Rightarrow>
                     (case check_cycle (do_dropoff st1) of
                        Inl e \<Rightarrow> Inl e
                      | Inr st2 \<Rightarrow> Inr (build ti st2)))))"

section \<open>The claims' own vocabulary\<close>

text \<open>
  The hours a day's \<open>totals\<close> holds under a key, as the output contract has them (a finite
  number under each of the four keys), and the sum the trip summary is claimed to show.
\<close>

definition is_fin :: "jsnum option \<Rightarrow> bool" where
  "is_fin v = (case v of Some (Fin q) \<Rightarrow> True | _ \<Rightarrow> False)"

definition hours :: "day_log \<Rightarrow> string \<Rightarrow> rat" where
  "hours d k = (case total d k of Some (Fin q) \<Rightarrow> q | _ \<Rightarrow> 0)"

definition finite_totals :: "day_log \<Rightarrow> bool" where
  "finite_totals d =
     (is_fin (total d ''off_duty'') \<and> is_fin (total d ''sleeper'')
      \<and> is_fin (total d ''driving'') \<and> is_fin (total d ''on_duty''))"


text \<open>
  Two calls that are the same call, or that print two texts at the same place.
\<close>

definition same_but_text :: "cmd \<Rightarrow> cmd \<Rightarrow> bool" where
  "same_but_text a b = (a = b \<or> (\<exists>s t x y. a = FillText s x y \<and> b = FillText t x y))"

text \<open>The scheduling fields of a request: the three locations and the cycle hours.\<close>

definition scheduling_fields :: "trip_request \<Rightarrow> string \<times> string \<times> string \<times> jsnum" where
  "scheduling_fields req =
     (req_current_location req, req_pickup_location req, req_dropoff_location req,
      req_cycle_hours_used req)"

text \<open>What a day's block shows beside its canvas.\<close>

definition block_header :: "js_error + day_view \<Rightarrow> js_error + string \<times> string \<times> string \<times> string" where
  "block_header r = map_sum id (\<lambda>v. (title v, pill_drive v, pill_on_duty v, pill_off_duty v)) r"

text \<open>
  What a failed planning leaves on the page with the message \<open>msg\<close>: the error of the
  state is \<open>msg\<close> and \<open>tripData\<close> is null; the banner reads the warning sign, a space and
  \<open>msg\<close>; neither the loading card nor the results (map, summary, logs) are rendered.
\<close>

definition warning_sign :: string where
  "warning_sign = [CHR 0xE2, CHR 0x9A, CHR 0xA0]"

definition shows_error_only :: "'d app_state \<Rightarrow> string \<Rightarrow> bool" where
  "shows_error_only st msg =
     (error st = msg \<and> tripData st = None
      \<and> banner (App st) = Some (warning_sign @ '' '' @ msg)
      \<and> loading_card (App st) = None
      \<and> results (App st) = None)"

text \<open>The hour of a 12-hour clock face for an hour of the day.\<close>

definition hour12 :: "int \<Rightarrow> int" where
  "hour12 h = (if h = 0 then 12 else if 12 < h then h - 12 else h)"

text \<open>
  The cap on the driving of a shift, read off a list of segments given as status and
  hours. \<open>drv\<close> is the driving of the shift so far and \<open>off\<close> the hours of the off-duty or
  sleeper block in progress: driving adds to \<open>drv\<close>, which must stay within 11 hours;
  a block of off-duty and sleeper segments that reaches 10 hours ends the shift and
  sets \<open>drv\<close> back to nothing; any other segment ends the block.
\<close>

fun shift_cap :: "rat \<Rightarrow> rat \<Rightarrow> (DutyStatus \<times> rat) list \<Rightarrow> bool" where
  "shift_cap drv off [] = True"
| "shift_cap drv off ((s, h) # xs) =
     (if s = driving then drv + h \<le> 11 \<and> shift_cap (drv + h) 0 xs
      else if s = on_duty then shift_cap drv 0 xs
      else shift_cap (if 10 \<le> off + h then 0 else drv) (off + h) xs)"

definition segment_hours :: "DutySegment list \<Rightarrow> (DutyStatus \<times> rat) list" where
  "segment_hours segs = map (\<lambda>s. (ds_status s, duration s)) segs"

text \<open>
  The same cap said without a running sum. A reset is a run of off-duty and sleeper
  segments, one after another, of 10 hours or more in all. A stretch of the schedule
  that holds no reset lies within one shift, and the cap asks that the driving of every
  such stretch is at most 11 hours.
\<close>

definition is_rest :: "DutyStatus \<Rightarrow> bool" where
  "is_rest s = (s = off_duty \<or> s = sleeper)"

definition driving_hours :: "(DutyStatus \<times> rat) list \<Rightarrow> rat" where
  "driving_hours xs = sum_list (map (\<lambda>(s, h). if s = driving then h else 0) xs)"

definition reset_block :: "(DutyStatus \<times> rat) list \<Rightarrow> bool" where
  "reset_block xs = (list_all (\<lambda>(s, h). is_rest s) xs \<and> 10 \<le> sum_list (map snd xs))"

definition has_reset :: "(DutyStatus \<times> rat) list \<Rightarrow> bool" where
  "has_reset xs = (\<exists>us vs ws. xs = us @ vs @ ws \<and> reset_block vs)"

definition shifts_within_cap :: "(DutyStatus \<times> rat) list \<Rightarrow> bool" where
  "shifts_within_cap xs =
     (\<forall>us vs ws. xs = us @ vs @ ws \<and> \<not> has_reset vs \<longrightarrow> driving_hours vs \<le> 11)"

text \<open>The cap on a schedule: over the segments of its days, day after day.\<close>

definition shift_driving_ok :: "ScheduleResult \<Rightarrow> bool" where
  "shift_driving_ok r =
     shifts_within_cap (segment_hours (concat (map dl_segments (sr_days r))))"

text \<open>For the proofs: no off-duty block from here on reaches 10 hours, the block in
  progress counted with its \<open>off\<close> hours.\<close>

fun quiet :: "rat \<Rightarrow> (DutyStatus \<times> rat) list \<Rightarrow> bool" where
  "quiet off [] = True"
| "quiet off ((s, h) # xs) =
     (if is_rest s then off + h < 10 \<and> quiet (off + h) xs else quiet 0 xs)"

text \<open>For the proofs: where a list of segments leaves \<open>drv\<close> and \<open>off\<close>; segments that
  follow one another from \<open>t\<close> to \<open>e\<close>, each of some length; and what the engine keeps
  true of its state.\<close>

fun shift_after :: "rat \<Rightarrow> rat \<Rightarrow> (DutyStatus \<times> rat) list \<Rightarrow> rat \<times> rat" where
  "shift_after drv off [] = (drv, off)"
| "shift_after drv off ((s, h) # xs) =
     (if s = driving then shift_after (drv + h) 0 xs
      else if s = on_duty then shift_after drv 0 xs
      else shift_after (if 10 \<le> off + h then 0 else drv) (off + h) xs)"

fun chain :: "rat \<Rightarrow> DutySegment list \<Rightarrow> rat \<Rightarrow> bool" where
  "chain t [] e = (t = e)"
| "chain t (s # ss) e = (start_hour s = t \<and> t < end_hour s \<and> chain (end_hour s) ss e)"

definition engine_inv :: "EngineState \<Rightarrow> bool" where
  "engine_inv st =
     (chain 0 (emitted st) (elapsed st)
      \<and> shift_cap 0 0 (segment_hours (emitted st))
      \<and> 0 \<le> fst (shift_after 0 0 (segment_hours (emitted st)))
      \<and> fst (shift_after 0 0 (segment_hours (emitted st))) \<le> driving_hrs_this_shift (clock st)
      \<and> 0 \<le> snd (shift_after 0 0 (segment_hours (emitted st)))
      \<and> driving_hrs_this_shift (clock st) \<le> 11)"

section \<open>Example inputs\<close>

definition example_route :: route where
  "example_route =
     \<lparr>geometry = [(Fin (- 876 / 10), Fin (418 / 10)), (Fin (- 902 / 10), Fin (386 / 10)),
                  (Fin (- 968 / 10), Fin (328 / 10))],
      distance_mi = Fin (8552 / 10)\<rparr>"

definition contract_rest_stop :: stop where
  "contract_rest_stop = \<lparr>stop_day = Fin 1, time_str = ''02:30 PM'', miles_in = None\<rparr>"

definition located_rest_stop :: stop where
  "located_rest_stop = \<lparr>stop_day = Fin 1, time_str = ''02:30 PM'', miles_in = Some (Fin 440)\<rparr>"

definition example_day1 :: day_log where
  "example_day1 =
     \<lparr>day_num = Fin 1,
      totals = [(''off_duty'', Fin (21 / 2)), (''sleeper'', Fin 0), (''driving'', Fin 11),
                (''on_duty'', Fin (5 / 2))],
      driven_miles = Fin 605,
      timeline =
        [\<lparr>status = ''off_duty'', seg_start = Fin 0, seg_end = Fin 6, seg_note = None\<rparr>,
         \<lparr>status = ''on_duty'', seg_start = Fin 6, seg_end = Fin 7, seg_note = Some ''Pickup''\<rparr>,
         \<lparr>status = ''driving'', seg_start = Fin 7, seg_end = Fin 15, seg_note = None\<rparr>,
         \<lparr>status = ''off_duty'', seg_start = Fin 15, seg_end = Fin (31 / 2),
           seg_note = Some ''30-min break''\<rparr>,
         \<lparr>status = ''driving'', seg_start = Fin (31 / 2), seg_end = Fin (37 / 2), seg_note = None\<rparr>,
         \<lparr>status = ''on_duty'', seg_start = Fin (37 / 2), seg_end = Fin 20,
           seg_note = Some ''Fuel stop''\<rparr>,
         \<lparr>status = ''off_duty'', seg_start = Fin 20, seg_end = Fin 24, seg_note = None\<rparr>]\<rparr>"

definition example_day2 :: day_log where
  "example_day2 =
     \<lparr>day_num = Fin 2,
      totals = [(''off_duty'', Fin (37 / 2)), (''sleeper'', Fin 0), (''driving'', Fin (9 / 2)),
                (''on_duty'', Fin 1)],
      driven_miles = Fin (4945 / 20),
      timeline =
        [\<lparr>status = ''off_duty'', seg_start = Fin 0, seg_end = Fin 6, seg_note = None\<rparr>,
         \<lparr>status = ''driving'', seg_start = Fin 6, seg_end = Fin (21 / 2), seg_note = None\<rparr>,
         \<lparr>status = ''on_duty'', seg_start = Fin (21 / 2), seg_end = Fin (23 / 2),
           seg_note = Some ''Dropoff''\<rparr>,
         \<lparr>status = ''off_duty'', seg_start = Fin (23 / 2), seg_end = Fin 24, seg_note = None\<rparr>]\<rparr>"


definition example_browser :: browser where
  "example_browser =
     \<lparr>devicePixelRatio = Some (Fin 2), measureText = (\<lambda>s. 5 * of_nat (length s))\<rparr>"

definition example_meta :: meta where
  "example_meta =
     \<lparr>meta_driverName = Some ''John Doe'', meta_carrierName = Some ''ACME Trucking Co.'',
      meta_from = Some ''Chicago'', meta_to = Some ''Dallas'',
      meta_totalMiles = Some (Fin (8552 / 10))\<rparr>"

text \<open>A day whose only segment has a status that is none of the four tags, and a day
  whose totals lack the key \<open>driving\<close>.\<close>

definition odd_status_day :: day_log where
  "odd_status_day =
     example_day1\<lparr>timeline :=
       [\<lparr>status = ''constructor'', seg_start = Fin 1, seg_end = Fin 2, seg_note = Some ''x''\<rparr>]\<rparr>"

definition no_driving_day :: day_log where
  "no_driving_day =
     example_day2\<lparr>totals := [(''off_duty'', Fin 24), (''sleeper'', Fin 0), (''on_duty'', Fin 0)],
                   timeline := [\<lparr>status = ''off_duty'', seg_start = Fin 0, seg_end = Fin 24,
                                  seg_note = None\<rparr>]\<rparr>"

text \<open>The five scenarios of section 8 of the specification, and what a plan is asked
  about in them.\<close>

definition scenario :: "rat \<Rightarrow> rat \<Rightarrow> TripInput" where
  "scenario miles cycle =
     \<lparr>ti_distance_mi = miles, ti_cycle_hours_used_start = cycle,
      ti_driver = ''John Doe'', ti_carrier = ''ACME Trucking Co.''\<rparr>"

definition outline :: "PlanningError + ScheduleResult \<Rightarrow> PlanningError + nat \<times> rat \<times> rat list \<times> nat" where
  "outline p =
     map_sum id
       (\<lambda>r. (ts_trip_days (sr_trip_stats r), ts_total_driving_hrs (sr_trip_stats r),
             map ev_miles_in (sr_fuel_stops r), length (sr_rest_stops r)))
       p"

section \<open>Theorems\<close>

lemma parseFloat_71: "parseFloat ''71'' = Fin 71"
  by code_simp

lemma parseFloat_0: "parseFloat ''0'' = Fin 0"
  by code_simp

lemma parseFloat_70: "parseFloat ''70'' = Fin 70"
  by code_simp

lemma validate_empty_iff:
  "validate v = [] \<longleftrightarrow>
     trim (current_location v) \<noteq> [] \<and> trim (pickup_location v) \<noteq> []
     \<and> trim (dropoff_location v) \<noteq> []
     \<and> (\<exists>x. parseFloat (cycle_hours_used v) = Fin x \<and> 0 \<le> x \<and> x \<le> 70)"
  by (cases "parseFloat (cycle_hours_used v)")
     (auto simp: validate_def isNaN_def js_gt_def Let_def)

subsection \<open>Submitting the form\<close>

text \<open>
  C1. A submission calls \<open>onSubmit\<close> exactly when the three locations are non-empty after
  trimming and \<open>cycle_hours_used\<close> parses to a number from 0 to 70. A form whose cycle
  field reads 71 is answered by \<open>setErrors\<close> alone, with \<open>Must be 0-70 hrs\<close> (en dash) under
  the key \<open>cycle_hours_used\<close>, whatever its other fields hold; with the cycle field at 0
  or at 70 the request goes out as soon as the locations are filled in.
\<close>

theorem C1_submit_iff_valid:
  "((\<exists>req. handleSubmit v = OnSubmit req) \<longleftrightarrow>
      trim (current_location v) \<noteq> [] \<and> trim (pickup_location v) \<noteq> []
      \<and> trim (dropoff_location v) \<noteq> []
      \<and> (\<exists>x. parseFloat (cycle_hours_used v) = Fin x \<and> 0 \<le> x \<and> x \<le> 70))
   \<and> handleSubmit (v\<lparr>cycle_hours_used := ''71''\<rparr>)
       = SetErrors (validate (v\<lparr>cycle_hours_used := ''71''\<rparr>))
   \<and> map_of (validate (v\<lparr>cycle_hours_used := ''71''\<rparr>)) ''cycle_hours_used'' = Some cycle_error
   \<and> ((\<exists>req. handleSubmit (v\<lparr>cycle_hours_used := ''0''\<rparr>) = OnSubmit req) \<longleftrightarrow>
        trim (current_location v) \<noteq> [] \<and> trim (pickup_location v) \<noteq> []
        \<and> trim (dropoff_location v) \<noteq> [])
   \<and> ((\<exists>req. handleSubmit (v\<lparr>cycle_hours_used := ''70''\<rparr>) = OnSubmit req) \<longleftrightarrow>
        trim (current_location v) \<noteq> [] \<and> trim (pickup_location v) \<noteq> []
        \<and> trim (dropoff_location v) \<noteq> [])"
proof -
  have sub: "(\<exists>req. handleSubmit w = OnSubmit req) \<longleftrightarrow> validate w = []" for w
    by (auto simp: handleSubmit_def Let_def)
  have v71: "validate (v\<lparr>cycle_hours_used := ''71''\<rparr>) \<noteq> []"
    by (simp add: validate_empty_iff parseFloat_71)
  have h71: "handleSubmit (v\<lparr>cycle_hours_used := ''71''\<rparr>)
               = SetErrors (validate (v\<lparr>cycle_hours_used := ''71''\<rparr>))"
    using v71 by (simp add: handleSubmit_def Let_def)
  have m71: "map_of (validate (v\<lparr>cycle_hours_used := ''71''\<rparr>)) ''cycle_hours_used''
               = Some cycle_error"
    by (simp add: validate_def parseFloat_71 isNaN_def js_gt_def)
  have a0: "(\<exists>req. handleSubmit (v\<lparr>cycle_hours_used := ''0''\<rparr>) = OnSubmit req) \<longleftrightarrow>
        trim (current_location v) \<noteq> [] \<and> trim (pickup_location v) \<noteq> []
        \<and> trim (dropoff_location v) \<noteq> []"
    by (simp add: sub validate_empty_iff parseFloat_0)
  have a70: "(\<exists>req. handleSubmit (v\<lparr>cycle_hours_used := ''70''\<rparr>) = OnSubmit req) \<longleftrightarrow>
        trim (current_location v) \<noteq> [] \<and> trim (pickup_location v) \<noteq> []
        \<and> trim (dropoff_location v) \<noteq> []"
    by (simp add: sub validate_empty_iff parseFloat_70)
  have main: "(\<exists>req. handleSubmit v = OnSubmit req) \<longleftrightarrow>
      trim (current_location v) \<noteq> [] \<and> trim (pickup_location v) \<noteq> []
      \<and> trim (dropoff_location v) \<noteq> []
      \<and> (\<exists>x. parseFloat (cycle_hours_used v) = Fin x \<and> 0 \<le> x \<and> x \<le> 70)"
    unfolding sub validate_empty_iff ..
  from main h71 m71 a0 a70 show ?thesis
    by (intro conjI)
qed

subsection \<open>The marker of a rest break\<close>

lemma stop_idx_no_miles: "miles_in s = None \<Longrightarrow> stop_idx r s = NaN"
  by (simp add: stop_idx_def to_number_def Math_min_def Let_def)

text \<open>
  C2, as the claim states it, fails. The loop over \<open>rest_stops\<close> reads \<open>rs.miles_in\<close>. On a
  rest stop that has the fields \<open>day\<close> and \<open>time_str\<close> and no other, the property is
  \<open>undefined\<close>, the index is NaN and the point handed to the marker is \<open>undefined\<close>:
  here on a route of three points.
\<close>

theorem C2_contract_rest_stop_index_NaN:
  "stop_idx example_route contract_rest_stop = NaN
   \<and> fst (rest_marker example_route contract_rest_stop) = None
   \<and> \<not> (\<exists>n<length (latlngs example_route).
           stop_idx example_route contract_rest_stop = Fin (of_nat n))"
proof -
  have "stop_idx example_route contract_rest_stop = NaN"
    by (rule stop_idx_no_miles) (simp add: contract_rest_stop_def)
  then show ?thesis
    by (simp add: rest_marker_def js_index_def)
qed

lemma Math_min_Fin: "Math_min (Fin a) (Fin b) = Fin (min a b)"
  by (simp add: Math_min_def min_def)

text \<open>
  C2, amended. For a rest stop that carries a finite \<open>miles_in\<close> that is not negative, a
  route geometry that is not empty and a \<open>distance_mi\<close> that is a number, the index of the
  rest-break marker is an integer from 0 below the number of points, and the marker
  stands on that point of the polyline.
\<close>

theorem C2_rest_marker_in_bounds:
  assumes "miles_in rs = Some (Fin m)" and "0 \<le> m"
    and "geometry r \<noteq> []" and "distance_mi r \<noteq> NaN"
  shows "\<exists>n<length (latlngs r). stop_idx r rs = Fin (of_nat n)
           \<and> fst (rest_marker r rs) = Some (latlngs r ! n)"
proof -
  define N where "N = length (latlngs r)"
  have N: "0 < N" using assms(3) by (simp add: N_def latlngs_def)
  have "\<exists>f. js_div (Fin m) (Math_max (distance_mi r) (Fin 1)) = Fin f \<and> 0 \<le> f"
    using assms(2,4) by (cases "distance_mi r") (auto simp: Math_max_def)
  then obtain f where f: "js_div (Fin m) (Math_max (distance_mi r) (Fin 1)) = Fin f" "0 \<le> f"
    by blast
  define k where "k = min \<lfloor>f * of_nat N\<rfloor> (int N - 1)"
  have fl: "0 \<le> \<lfloor>f * of_nat N\<rfloor>" using f(2) by simp
  have k: "0 \<le> k" "k < int N" using fl N by (auto simp: k_def)
  have "stop_idx r rs = Math_min (Math_floor (js_mul (Fin f) (Fin (of_nat N))))
                                 (js_sub (Fin (of_nat N)) (Fin 1))"
    unfolding stop_idx_def Let_def N_def using assms(1) f(1) by (simp add: to_number_def)
  also have "\<dots> = Fin (min (of_int \<lfloor>f * of_nat N\<rfloor>) (of_nat N - 1))"
    by (simp add: js_sub_def Math_min_Fin)
  also have "min (of_int \<lfloor>f * of_nat N\<rfloor>) (of_nat N - 1) = (of_int k :: rat)"
    unfolding k_def by (simp add: min_def)
  finally have idx: "stop_idx r rs = Fin (of_int k)" .
  have ofk: "(of_nat (nat k) :: rat) = of_int k" using k(1) by simp
  have idx': "stop_idx r rs = Fin (of_nat (nat k))" unfolding ofk by (rule idx)
  have lt: "nat k < length (latlngs r)" using k by (simp add: N_def)
  have "js_index (latlngs r) (Fin (of_int k)) = Some (latlngs r ! nat k)"
    using k by (simp add: js_index_def N_def)
  then have mk: "fst (rest_marker r rs) = Some (latlngs r ! nat k)"
    by (simp add: rest_marker_def idx)
  from lt idx' mk show ?thesis
    by blast
qed


theorem C2_rest_marker_in_bounds_witness:
  "miles_in located_rest_stop = Some (Fin 440) \<and> (0::rat) \<le> 440
   \<and> geometry example_route \<noteq> [] \<and> distance_mi example_route \<noteq> NaN
   \<and> (\<exists>n<length (latlngs example_route).
         stop_idx example_route located_rest_stop = Fin (of_nat n)
         \<and> fst (rest_marker example_route located_rest_stop) = Some (latlngs example_route ! n))"
proof -
  have h: "miles_in located_rest_stop = Some (Fin 440)" "(0::rat) \<le> 440"
    "geometry example_route \<noteq> []" "distance_mi example_route \<noteq> NaN"
    by (simp_all add: located_rest_stop_def example_route_def)
  from C2_rest_marker_in_bounds [OF h] have
    "\<exists>n<length (latlngs example_route).
         stop_idx example_route located_rest_stop = Fin (of_nat n)
         \<and> fst (rest_marker example_route located_rest_stop) = Some (latlngs example_route ! n)" .
  with h show ?thesis by (intro conjI)
qed

subsection \<open>Cycle hours remaining\<close>

lemma is_fin_iff: "is_fin v \<longleftrightarrow> (\<exists>q. v = Some (Fin q))"
  by (cases v) (auto simp: is_fin_def split: jsnum.splits)











subsection \<open>A failed planning outcome\<close>

lemma or_else_nonempty: "b \<noteq> [] \<Longrightarrow> or_else a b \<noteq> []"
  by (simp add: or_else_def split: option.splits)

lemma or_else_Some_nonempty: "s \<noteq> [] \<Longrightarrow> or_else (Some s) b = s"
  by (simp add: or_else_def)

lemma handlePlanTrip_Rejected:
  "handlePlanTrip st (Rejected err) =
     st\<lparr>error := or_else (err_response_data_error err) (or_else (err_message err) ''Request failed.''),
        tripData := None, loading := False, loadMsg := []\<rparr>"
  by (simp add: handlePlanTrip_def plan_started_def)

lemma handlePlanTrip_failure:
  "\<not> success d \<Longrightarrow> handlePlanTrip st (Resolved d) =
     st\<lparr>error := or_else (resp_error d) ''Unknown error'',
        tripData := None, loading := False, loadMsg := []\<rparr>"
  by (simp add: handlePlanTrip_def plan_started_def or_else_Some_nonempty or_else_nonempty)

lemma handlePlanTrip_success:
  "success d \<Longrightarrow> handlePlanTrip st (Resolved d) =
     st\<lparr>error := [], tripData := Some d, loading := False, loadMsg := []\<rparr>"
  by (simp add: handlePlanTrip_def plan_started_def)

lemma shows_error_only_update:
  "msg \<noteq> [] \<Longrightarrow>
     shows_error_only (st\<lparr>error := msg, tripData := None, loading := False, loadMsg := []\<rparr>) msg"
  by (simp add: shows_error_only_def App_def warning_sign_def)

lemma successful_plan_shows_results:
  "(let st' = handlePlanTrip st (Resolved (d\<lparr>success := True\<rparr>))
    in error st' = [] \<and> tripData st' = Some (d\<lparr>success := True\<rparr>)
       \<and> banner (App st') = None \<and> results (App st') = Some (d\<lparr>success := True\<rparr>))"
  by (simp add: handlePlanTrip_success App_def)

text \<open>
  C4. When the request is rejected, the message shown is the one the server sent
  (\<open>err.response.data.error\<close>) when it is there and not empty, whatever the message of
  the rejection is; when the server sent none, or an empty one, it is the message of
  the rejection, and \<open>Request failed.\<close> when that is missing or empty too. When the
  request resolves with a body whose \<open>success\<close> is false, the message shown is the
  body's \<open>error\<close> when it is there and not empty, and \<open>Unknown error\<close> otherwise. In
  each of these cases the banner reads the warning sign, a space and that message,
  \<open>tripData\<close> is null, and neither the results nor the loading card are rendered. After
  any outcome at all, an error and a \<open>tripData\<close> never stand together, and nothing is
  rendered from \<open>tripData\<close> while the request is awaited.
\<close>

theorem C4_failed_plan_shows_error_only:
  "shows_error_only
     (handlePlanTrip st (Rejected \<lparr>err_response_data_error = Some (c # m), err_message = e\<rparr>))
     (c # m)
   \<and> shows_error_only
     (handlePlanTrip st (Rejected \<lparr>err_response_data_error = None, err_message = Some (c # m)\<rparr>))
     (c # m)
   \<and> shows_error_only
     (handlePlanTrip st (Rejected \<lparr>err_response_data_error = Some [], err_message = Some (c # m)\<rparr>))
     (c # m)
   \<and> shows_error_only
     (handlePlanTrip st (Rejected \<lparr>err_response_data_error = None, err_message = None\<rparr>))
     ''Request failed.''
   \<and> shows_error_only
     (handlePlanTrip st (Rejected \<lparr>err_response_data_error = None, err_message = Some []\<rparr>))
     ''Request failed.''
   \<and> shows_error_only
     (handlePlanTrip st (Rejected \<lparr>err_response_data_error = Some [], err_message = None\<rparr>))
     ''Request failed.''
   \<and> shows_error_only
     (handlePlanTrip st (Rejected \<lparr>err_response_data_error = Some [], err_message = Some []\<rparr>))
     ''Request failed.''
   \<and> shows_error_only
     (handlePlanTrip st (Resolved (d\<lparr>success := False, resp_error := Some (c # m)\<rparr>)))
     (c # m)
   \<and> shows_error_only
     (handlePlanTrip st (Resolved (d\<lparr>success := False, resp_error := None\<rparr>)))
     ''Unknown error''
   \<and> shows_error_only
     (handlePlanTrip st (Resolved (d\<lparr>success := False, resp_error := Some []\<rparr>)))
     ''Unknown error''
   \<and> (let st' = handlePlanTrip st out in error st' = [] \<or> tripData st' = None)
   \<and> results (App (plan_started st)) = None"
proof -
  have c: "let st' = handlePlanTrip st out in error st' = [] \<or> tripData st' = None"
  proof (cases out)
    case (Resolved x)
    then show ?thesis
      by (cases "success x") (simp_all add: handlePlanTrip_failure handlePlanTrip_success)
  next
    case (Rejected e)
    then show ?thesis by (simp add: handlePlanTrip_Rejected)
  qed
  have e: "results (App (plan_started st)) = None"
    by (simp add: App_def plan_started_def)
  show ?thesis
    unfolding handlePlanTrip_Rejected
    by (intro conjI c e; simp add: handlePlanTrip_failure or_else_def; intro shows_error_only_update; simp)
qed


subsection \<open>The daily log sheet\<close>

lemma drawn_prefix:
  "\<exists>rest. fst (drawELDLog env d i) =
     canvas_setup env @ background @ title_bar @ [FillStyle (Color C_black), TextAlign ''left'']
     @ header_fields i @ signature_and_divider @ hour_labels @ grid_rows d
     @ activity_lines None None (validSegs d) @ remarks env d @ recap_title @ rest"
  by (cases "recapRows d") (simp_all add: drawELDLog_def)

lemma grid_rows_drawn: "set (grid_rows d) \<subseteq> set (fst (drawELDLog env d i))"
  using drawn_prefix [of env d i] by auto

lemma activity_drawn:
  "set (activity_lines None None (validSegs d)) \<subseteq> set (fst (drawELDLog env d i))"
  using drawn_prefix [of env d i] by auto

lemma remarks_drawn: "set (remarks env d) \<subseteq> set (fst (drawELDLog env d i))"
  using drawn_prefix [of env d i] by auto

lemma row_total_drawn:
  "row < ROWS \<Longrightarrow> set (row_total d row) \<subseteq> set (fst (drawELDLog env d i))"
proof -
  assume "row < ROWS"
  then have "set (row_total d row) \<subseteq> set (grid_rows d)"
    by (fastforce simp: grid_rows_def)
  with grid_rows_drawn [of d env i] show ?thesis by blast
qed

lemma activity_lines_mem:
  "seg \<in> set segs \<Longrightarrow>
     MoveTo (seg_x (seg_start seg)) (row_cy (get_prop STATUS_ROW (status seg)))
       \<in> set (activity_lines pr px segs)
     \<and> LineTo (seg_x (seg_end seg)) (row_cy (get_prop STATUS_ROW (status seg)))
       \<in> set (activity_lines pr px segs)"
proof (induction segs arbitrary: pr px)
  case Nil
  then show ?case by simp
next
  case (Cons a segs)
  show ?case
  proof (cases "seg = a")
    case True
    then show ?thesis by (simp add: Let_def)
  next
    case False
    with Cons.prems have "seg \<in> set segs" by simp
    from Cons.IH [OF this] show ?thesis by (simp add: Let_def)
  qed
qed

lemma STATUS_ROW_Own:
  "get_prop STATUS_ROW s = Own r \<longleftrightarrow>
     (s, r) \<in> {(''off_duty'', 0), (''sleeper'', 1), (''driving'', 2), (''on_duty'', 3)}"
  by (auto simp: get_prop_def STATUS_ROW_def split: if_splits)

lemma row_cy_Own: "row_cy (Own r) = Fin (GRID_TOP + of_nat r * ROW_H + ROW_H / 2)"
  by (simp add: row_cy_def row_number_def)

lemma or_zero_Fin: "toFixed 2 (or_zero (Some (Fin x))) = toFixed 2 (Fin x)"
  by (simp add: or_zero_def truthy_def)

text \<open>
  C7. A status is given a row by \<open>STATUS_ROW\<close> exactly when it is one of the four tags,
  and then the row is 0 for \<open>off_duty\<close>, 1 for \<open>sleeper\<close>, 2 for \<open>driving\<close> and 3 for
  \<open>on_duty\<close>; the key of row \<open>r\<close> in the totals column is the status of ordinal \<open>r\<close>. The
  line of every segment with one of the four statuses is drawn at the height of its
  row. For each of the four rows, when the day's totals hold a finite number under the
  row's key, the text printed in the totals column of that row is that number with two
  decimals.
\<close>

theorem C7_status_rows_and_totals:
  "(\<forall>s r. get_prop STATUS_ROW s = Own r \<longleftrightarrow>
       (s, r) \<in> {(''off_duty'', 0), (''sleeper'', 1), (''driving'', 2), (''on_duty'', 3)})
   \<and> map (\<lambda>r. get_prop STATUS_ROW (statusKey r)) [0..<ROWS] = map Own [0..<ROWS]
   \<and> (\<forall>seg\<in>set (timeline d). \<forall>r. get_prop STATUS_ROW (status seg) = Own r \<longrightarrow>
         MoveTo (seg_x (seg_start seg)) (Fin (GRID_TOP + of_nat r * ROW_H + ROW_H / 2))
           \<in> set (fst (drawELDLog env d i))
         \<and> LineTo (seg_x (seg_end seg)) (Fin (GRID_TOP + of_nat r * ROW_H + ROW_H / 2))
           \<in> set (fst (drawELDLog env d i)))
   \<and> (\<forall>r<ROWS. \<forall>x. total d (statusKey r) = Some (Fin x) \<longrightarrow>
         FillText (toFixed 2 (Fin x)) (Fin (TOTAL_X + 6))
                  (Fin (GRID_TOP + of_nat r * ROW_H + ROW_H / 2 + 4))
           \<in> set (fst (drawELDLog env d i)))"
proof (intro conjI allI ballI impI)
  fix s r
  show "get_prop STATUS_ROW s = Own r \<longleftrightarrow>
       (s, r) \<in> {(''off_duty'', 0), (''sleeper'', 1), (''driving'', 2), (''on_duty'', 3)}"
    by (rule STATUS_ROW_Own)
next
  have "[0..<ROWS] = [0, 1, 2, 3]" by (simp add: ROWS_def upt_rec)
  then show "map (\<lambda>r. get_prop STATUS_ROW (statusKey r)) [0..<ROWS] = map Own [0..<ROWS]"
    by (simp add: get_prop_def STATUS_ROW_def statusKey_def)
next
  fix seg r
  assume seg: "seg \<in> set (timeline d)" and row: "get_prop STATUS_ROW (status seg) = Own r"
  then have "seg \<in> set (validSegs d)" by (simp add: validSegs_def)
  from activity_lines_mem [OF this, of None None] activity_drawn [of d env i]
  show "MoveTo (seg_x (seg_start seg)) (Fin (GRID_TOP + of_nat r * ROW_H + ROW_H / 2))
           \<in> set (fst (drawELDLog env d i))"
    and "LineTo (seg_x (seg_end seg)) (Fin (GRID_TOP + of_nat r * ROW_H + ROW_H / 2))
           \<in> set (fst (drawELDLog env d i))"
    unfolding row row_cy_Own by blast+
next
  fix r x
  assume r: "r < ROWS" and x: "total d (statusKey r) = Some (Fin x)"
  have "FillText (toFixed 2 (Fin x)) (Fin (TOTAL_X + 6))
                  (Fin (GRID_TOP + of_nat r * ROW_H + ROW_H / 2 + 4)) \<in> set (row_total d r)"
    by (simp add: row_total_def rowHours_def x or_zero_Fin)
  with row_total_drawn [OF r, of d env i]
  show "FillText (toFixed 2 (Fin x)) (Fin (TOTAL_X + 6))
                  (Fin (GRID_TOP + of_nat r * ROW_H + ROW_H / 2 + 4))
           \<in> set (fst (drawELDLog env d i))"
    by blast
qed


theorem C7_status_rows_and_totals_witness:
  "get_prop STATUS_ROW ''driving'' = Own 2
   \<and> MoveTo (Fin (908 / 3)) (Fin 238)
        \<in> set (fst (drawELDLog example_browser example_day1
                      (info_of example_day1 ''11/01/2026'' example_meta)))
   \<and> LineTo (Fin 548) (Fin 238)
        \<in> set (fst (drawELDLog example_browser example_day1
                      (info_of example_day1 ''11/01/2026'' example_meta)))
   \<and> FillText ''11.00'' (Fin 834) (Fin 242)
        \<in> set (fst (drawELDLog example_browser example_day1
                      (info_of example_day1 ''11/01/2026'' example_meta)))"
proof -
  let ?seg = "\<lparr>status = ''driving'', seg_start = Fin 7, seg_end = Fin 15, seg_note = None\<rparr>"
  let ?draw = "fst (drawELDLog example_browser example_day1
                      (info_of example_day1 ''11/01/2026'' example_meta))"
  note inst = C7_status_rows_and_totals [of example_day1 example_browser
      "info_of example_day1 ''11/01/2026'' example_meta"]
  have seg: "?seg \<in> set (timeline example_day1)"
    by (simp add: example_day1_def)
  have row: "get_prop STATUS_ROW (status ?seg) = Own 2"
    by (simp add: get_prop_def STATUS_ROW_def)
  have tot: "total example_day1 (statusKey 2) = Some (Fin 11)"
    by (simp add: total_def statusKey_def example_day1_def)
  have r: "(2::nat) < ROWS" by (simp add: ROWS_def)
  have tf: "toFixed 2 (Fin 11) = ''11.00''" by code_simp
  have xs: "seg_x (seg_start ?seg) = Fin (908 / 3)" "seg_x (seg_end ?seg) = Fin 548"
    by (simp_all add: seg_x_def layout_defs)
  have ys: "GRID_TOP + of_nat 2 * ROW_H + ROW_H / 2 = 238" "TOTAL_X + 6 = 834"
    "GRID_TOP + of_nat 2 * ROW_H + ROW_H / 2 + 4 = 242"
    by (simp_all add: layout_defs)
  from inst seg row have "MoveTo (seg_x (seg_start ?seg)) (Fin (GRID_TOP + of_nat 2 * ROW_H + ROW_H / 2)) \<in> set ?draw
    \<and> LineTo (seg_x (seg_end ?seg)) (Fin (GRID_TOP + of_nat 2 * ROW_H + ROW_H / 2)) \<in> set ?draw"
    by blast
  moreover from inst r tot have "FillText (toFixed 2 (Fin 11)) (Fin (TOTAL_X + 6))
                  (Fin (GRID_TOP + of_nat 2 * ROW_H + ROW_H / 2 + 4)) \<in> set ?draw"
    by blast
  ultimately show ?thesis
    unfolding xs ys tf using row by simp
qed

lemma headers_same_but_text:
  "list_all2 same_but_text (header_fields i) (header_fields j)"
  by (simp add: header_fields_def hdrField_def same_but_text_def list_all2_appendI)

lemma draw_split:
  "\<exists>pre post. \<forall>i. fst (drawELDLog env d i) = pre @ header_fields i @ post"
proof (cases "recapRows d")
  case (Inl e)
  show ?thesis
    by (rule exI [of _ "canvas_setup env @ background @ title_bar
                         @ [FillStyle (Color C_black), TextAlign ''left'']"],
        rule exI [of _ "signature_and_divider @ hour_labels @ grid_rows d
                         @ activity_lines None None (validSegs d) @ remarks env d @ recap_title"])
       (simp add: drawELDLog_def Inl)
next
  case (Inr rows)
  show ?thesis
    by (rule exI [of _ "canvas_setup env @ background @ title_bar
                         @ [FillStyle (Color C_black), TextAlign ''left'']"],
        rule exI [of _ "signature_and_divider @ hour_labels @ grid_rows d
                         @ activity_lines None None (validSegs d) @ remarks env d @ recap_title
                         @ recap_lines rows"])
       (simp add: drawELDLog_def Inr)
qed

lemma draw_error_info: "snd (drawELDLog env d i) = snd (drawELDLog env d j)"
  by (cases "recapRows d") (simp_all add: drawELDLog_def)

lemma validate_names:
  "validate (v\<lparr>driver_name := dn, carrier_name := cn\<rparr>) = validate v"
  by (simp add: validate_def)

text \<open>
  C6. Changing the driver's or the carrier's name in the form changes neither the
  outcome of the validation nor, when the request goes out, its three locations and its
  cycle hours. For a fixed day, the calls \<open>drawELDLog\<close> makes are, for every \<open>meta\<close>, the
  same calls before and the same calls after the eight header fields; inside the header
  fields two \<open>meta\<close> values change nothing but the texts printed; the error that ends the
  drawing, the title of the block and its three pills do not depend on \<open>meta\<close>.
\<close>

theorem C6_metadata_only_in_header:
  "validate (v\<lparr>driver_name := dn, carrier_name := cn\<rparr>) = validate v
   \<and> (case (handleSubmit v, handleSubmit (v\<lparr>driver_name := dn, carrier_name := cn\<rparr>)) of
         (OnSubmit req, OnSubmit req') \<Rightarrow> scheduling_fields req = scheduling_fields req'
       | (SetErrors e, SetErrors e') \<Rightarrow> e = e'
       | _ \<Rightarrow> False)
   \<and> (\<exists>pre post. \<forall>m. fst (drawELDLog env day (info_of day dateStr m))
                         = pre @ header_fields (info_of day dateStr m) @ post)
   \<and> (\<forall>m m'. list_all2 same_but_text (header_fields (info_of day dateStr m))
                                       (header_fields (info_of day dateStr m')))
   \<and> (\<forall>m m'. snd (drawELDLog env day (info_of day dateStr m))
               = snd (drawELDLog env day (info_of day dateStr m')))
   \<and> (\<forall>m m'. block_header (DayLog env day dateStr m) = block_header (DayLog env day dateStr m'))"
proof (intro conjI allI)
  show "validate (v\<lparr>driver_name := dn, carrier_name := cn\<rparr>) = validate v"
    by (rule validate_names)
next
  show "case (handleSubmit v, handleSubmit (v\<lparr>driver_name := dn, carrier_name := cn\<rparr>)) of
         (OnSubmit req, OnSubmit req') \<Rightarrow> scheduling_fields req = scheduling_fields req'
       | (SetErrors e, SetErrors e') \<Rightarrow> e = e'
       | _ \<Rightarrow> False"
    by (cases "validate v = []")
       (simp_all add: handleSubmit_def validate_names scheduling_fields_def Let_def)
next
  from draw_split [of env day] obtain pre post
    where "\<forall>i. fst (drawELDLog env day i) = pre @ header_fields i @ post" by blast
  then show "\<exists>pre post. \<forall>m. fst (drawELDLog env day (info_of day dateStr m))
                         = pre @ header_fields (info_of day dateStr m) @ post"
    by blast
next
  fix m m'
  show "list_all2 same_but_text (header_fields (info_of day dateStr m))
                                (header_fields (info_of day dateStr m'))"
    by (rule headers_same_but_text)
  show "snd (drawELDLog env day (info_of day dateStr m))
               = snd (drawELDLog env day (info_of day dateStr m'))"
    by (rule draw_error_info)
  show "block_header (DayLog env day dateStr m) = block_header (DayLog env day dateStr m')"
    by (cases "pills day") (auto simp: block_header_def DayLog_def Let_def)
qed


lemma recap_lines_mem:
  "k < length rows \<Longrightarrow>
     FillText (snd (rows ! k)) (Fin (CW - M - 8)) (Fin (RECAP_Y + 23 + of_nat k * 13))
       \<in> set (recap_lines rows)"
  by (auto simp: recap_lines_def intro!: bexI [of _ k])

lemma recap_drawn:
  "recapRows d = Inr rows \<Longrightarrow>
     set (recap_lines rows) \<subseteq> set (fst (drawELDLog env d i)) \<and> snd (drawELDLog env d i) = None"
  by (auto simp: drawELDLog_def)

lemma finite_totals_values:
  "finite_totals d \<Longrightarrow>
     total d ''off_duty'' = Some (Fin (hours d ''off_duty''))
     \<and> total d ''sleeper'' = Some (Fin (hours d ''sleeper''))
     \<and> total d ''driving'' = Some (Fin (hours d ''driving''))
     \<and> total d ''on_duty'' = Some (Fin (hours d ''on_duty''))"
  unfolding finite_totals_def is_fin_iff
  by (elim conjE exE) (simp add: hours_def)

text \<open>
  C8, amended. For a day whose totals hold a finite number under each of the four keys,
  the recapitulation prints line A as \<open>driving + on_duty\<close>, line B as \<open>driving\<close> and line
  C as \<open>off_duty + sleeper\<close>, each with two decimals and \<open>hrs\<close>, and the drawing ends
  without an error. The pills of the day's header show \<open>driving\<close> (as line B),
  \<open>on_duty\<close> alone, and \<open>off_duty + sleeper\<close> (as line C).
\<close>

theorem C8_recap_and_pills:
  assumes "finite_totals d"
  shows "recapRows d =
           Inr [(''A. On Duty Today (Lines 3 & 4)'',
                 toFixed 2 (Fin (hours d ''driving'' + hours d ''on_duty'')) @ '' hrs''),
                (''B. Driving Today (Line 3)'', toFixed 2 (Fin (hours d ''driving'')) @ '' hrs''),
                (''C. Off Duty Today (Lines 1 & 2)'',
                 toFixed 2 (Fin (hours d ''off_duty'' + hours d ''sleeper'')) @ '' hrs'')]
         \<and> FillText (toFixed 2 (Fin (hours d ''driving'' + hours d ''on_duty'')) @ '' hrs'')
                     (Fin (CW - M - 8)) (Fin (RECAP_Y + 23))
              \<in> set (fst (drawELDLog env d i))
         \<and> FillText (toFixed 2 (Fin (hours d ''driving'')) @ '' hrs'')
                     (Fin (CW - M - 8)) (Fin (RECAP_Y + 23 + 13))
              \<in> set (fst (drawELDLog env d i))
         \<and> FillText (toFixed 2 (Fin (hours d ''off_duty'' + hours d ''sleeper'')) @ '' hrs'')
                     (Fin (CW - M - 8)) (Fin (RECAP_Y + 23 + 26))
              \<in> set (fst (drawELDLog env d i))
         \<and> snd (drawELDLog env d i) = None
         \<and> pills d =
             Inr (toFixed 2 (Fin (hours d ''driving'')), toFixed 2 (Fin (hours d ''on_duty'')),
                  toFixed 2 (Fin (hours d ''off_duty'' + hours d ''sleeper'')))
         \<and> (\<exists>v. DayLog env d dateStr m = Inr v
               \<and> pill_drive v = [CHR 0xF0, CHR 0x9F, CHR 0x9A, CHR 0x9B] @ '' Drive ''
                                  @ toFixed 2 (Fin (hours d ''driving'')) @ ''h''
               \<and> pill_on_duty v = [CHR 0xF0, CHR 0x9F, CHR 0x93, CHR 0x8B] @ '' On Duty ''
                                    @ toFixed 2 (Fin (hours d ''on_duty'')) @ ''h''
               \<and> pill_off_duty v = [CHR 0xF0, CHR 0x9F, CHR 0x92, CHR 0xA4] @ '' Off Duty ''
                                     @ toFixed 2 (Fin (hours d ''off_duty'' + hours d ''sleeper''))
                                     @ ''h'')"
proof -
  note t = finite_totals_values [OF assms]
  let ?rows = "[(''A. On Duty Today (Lines 3 & 4)'',
                 toFixed 2 (Fin (hours d ''driving'' + hours d ''on_duty'')) @ '' hrs''),
                (''B. Driving Today (Line 3)'', toFixed 2 (Fin (hours d ''driving'')) @ '' hrs''),
                (''C. Off Duty Today (Lines 1 & 2)'',
                 toFixed 2 (Fin (hours d ''off_duty'' + hours d ''sleeper'')) @ '' hrs'')]"
  have rows: "recapRows d = Inr ?rows"
    using t by (simp add: recapRows_def to_number_def)
  note drawn = recap_drawn [OF rows, of env i]
  have a: "FillText (toFixed 2 (Fin (hours d ''driving'' + hours d ''on_duty'')) @ '' hrs'')
                     (Fin (CW - M - 8)) (Fin (RECAP_Y + 23)) \<in> set (recap_lines ?rows)"
    using recap_lines_mem [of 0 ?rows] by simp
  have b: "FillText (toFixed 2 (Fin (hours d ''driving'')) @ '' hrs'')
                     (Fin (CW - M - 8)) (Fin (RECAP_Y + 23 + 13)) \<in> set (recap_lines ?rows)"
    using recap_lines_mem [of 1 ?rows] by simp
  have c: "FillText (toFixed 2 (Fin (hours d ''off_duty'' + hours d ''sleeper'')) @ '' hrs'')
                     (Fin (CW - M - 8)) (Fin (RECAP_Y + 23 + 26)) \<in> set (recap_lines ?rows)"
    using recap_lines_mem [of 2 ?rows] by simp
  have p: "pills d =
             Inr (toFixed 2 (Fin (hours d ''driving'')), toFixed 2 (Fin (hours d ''on_duty'')),
                  toFixed 2 (Fin (hours d ''off_duty'' + hours d ''sleeper'')))"
    using t by (simp add: pills_def to_number_def)
  have v: "\<exists>v. DayLog env d dateStr m = Inr v
               \<and> pill_drive v = [CHR 0xF0, CHR 0x9F, CHR 0x9A, CHR 0x9B] @ '' Drive ''
                                  @ toFixed 2 (Fin (hours d ''driving'')) @ ''h''
               \<and> pill_on_duty v = [CHR 0xF0, CHR 0x9F, CHR 0x93, CHR 0x8B] @ '' On Duty ''
                                    @ toFixed 2 (Fin (hours d ''on_duty'')) @ ''h''
               \<and> pill_off_duty v = [CHR 0xF0, CHR 0x9F, CHR 0x92, CHR 0xA4] @ '' Off Duty ''
                                     @ toFixed 2 (Fin (hours d ''off_duty'' + hours d ''sleeper''))
                                     @ ''h''"
    by (simp add: DayLog_def p Let_def)
  from rows drawn a b c p v show ?thesis by blast
qed

theorem C8_recap_and_pills_witness:
  "finite_totals example_day1
   \<and> map snd (projr (recapRows example_day1)) = [''13.50 hrs'', ''11.00 hrs'', ''10.50 hrs'']
   \<and> pills example_day1 = Inr (''11.00'', ''2.50'', ''10.50'')
   \<and> FillText ''13.50 hrs'' (Fin 884) (Fin 329)
        \<in> set (fst (drawELDLog example_browser example_day1
                      (info_of example_day1 ''11/01/2026'' example_meta)))"
proof -
  have h: "finite_totals example_day1"
    by (simp add: finite_totals_def is_fin_def total_def example_day1_def)
  have hs: "hours example_day1 ''driving'' = 11" "hours example_day1 ''on_duty'' = 5 / 2"
    "hours example_day1 ''off_duty'' = 21 / 2" "hours example_day1 ''sleeper'' = 0"
    by (simp_all add: hours_def total_def example_day1_def)
  have tf: "toFixed 2 (Fin (27 / 2)) = ''13.50''" "toFixed 2 (Fin 11) = ''11.00''"
    "toFixed 2 (Fin (21 / 2)) = ''10.50''" "toFixed 2 (Fin (5 / 2)) = ''2.50''"
    by code_simp+
  have pos: "CW - M - 8 = 884" "RECAP_Y + 23 = 329"
    by (simp_all add: layout_defs)
  from C8_recap_and_pills [OF h, of example_browser
      "info_of example_day1 ''11/01/2026'' example_meta" "''11/01/2026''" example_meta]
  show ?thesis
    unfolding hs pos using h by (simp add: tf)
qed

text \<open>
  C8, as the claim states it, fails where it has the pills group the totals as the
  recapitulation does. On the first example day (11 hours driving, 2.5 hours on duty)
  the pill \<open>On Duty\<close> shows 2.50 and line A, \<open>On Duty Today\<close>, shows 13.50.
\<close>

theorem C8_on_duty_pill_is_not_line_A:
  "pills example_day1 = Inr (''11.00'', ''2.50'', ''10.50'')
   \<and> map snd (projr (recapRows example_day1)) = [''13.50 hrs'', ''11.00 hrs'', ''10.50 hrs'']"
  by code_simp

lemma validSegs_keeps:
  "validSegs d =
     filter (\<lambda>s. status s \<in> {''off_duty'', ''sleeper'', ''driving'', ''on_duty''}
                 \<or> status s \<in> set Object_prototype_keys)
            (timeline d)"
  unfolding validSegs_def
  by (rule filter_cong) (auto simp: get_prop_def STATUS_ROW_def)

lemma rowHours_missing: "total d (statusKey r) = None \<Longrightarrow> rowHours d r = ''0.00''"
proof -
  have "toFixed 2 (Fin 0) = ''0.00''" by code_simp
  then show "total d (statusKey r) = None \<Longrightarrow> rowHours d r = ''0.00''"
    by (simp add: rowHours_def or_zero_def)
qed

text \<open>
  C9 fails on the code. The filter keeps a segment whose status is a property that
  \<open>STATUS_ROW\<close> inherits, here \<open>constructor\<close>: its line is drawn at the height NaN with
  a stroke style the canvas ignores, and its note is printed among the remarks. And on a
  day whose totals lack the key \<open>driving\<close> the total of the row is printed as 0.00, but
  the recapitulation then throws a TypeError.
\<close>

theorem C9_inherited_status_is_drawn:
  "validSegs odd_status_day = timeline odd_status_day
   \<and> activity_lines None None (validSegs odd_status_day) =
       [StrokeStyle NotAStyle, LineWidth (Fin 3), LineCap ''round'',
        BeginPath, MoveTo (Fin (356 / 3)) NaN, LineTo (Fin (448 / 3)) NaN, Stroke]
   \<and> FillText (''1:00 AM '' @ em_dash @ '' x'') (Fin 26) (Fin 330)
        \<in> set (fst (drawELDLog example_browser odd_status_day i))
   \<and> rowHours no_driving_day 2 = ''0.00''
   \<and> snd (drawELDLog example_browser no_driving_day i) = Some TypeError"
proof -
  have v: "validSegs odd_status_day = timeline odd_status_day"
    by (simp add: validSegs_def odd_status_day_def get_prop_def STATUS_ROW_def
          Object_prototype_keys_def)
  have a: "activity_lines None None (timeline odd_status_day) =
       [StrokeStyle NotAStyle, LineWidth (Fin 3), LineCap ''round'',
        BeginPath, MoveTo (Fin (356 / 3)) NaN, LineTo (Fin (448 / 3)) NaN, Stroke]"
    by code_simp
  have "remarks example_browser odd_status_day ! 16 = FillText (''1:00 AM '' @ em_dash @ '' x'') (Fin 26) (Fin 330)"
    by code_simp
  moreover have "16 < length (remarks example_browser odd_status_day)"
    by code_simp
  ultimately have "FillText (''1:00 AM '' @ em_dash @ '' x'') (Fin 26) (Fin 330)
        \<in> set (remarks example_browser odd_status_day)"
    by (metis nth_mem)
  with remarks_drawn [of example_browser odd_status_day i]
  have r: "FillText (''1:00 AM '' @ em_dash @ '' x'') (Fin 26) (Fin 330)
        \<in> set (fst (drawELDLog example_browser odd_status_day i))"
    by blast
  have t: "rowHours no_driving_day 2 = ''0.00''"
    by (rule rowHours_missing) (simp add: total_def no_driving_day_def statusKey_def)
  have "recapRows no_driving_day = Inl TypeError"
    by (simp add: recapRows_def total_def no_driving_day_def)
  then have e: "snd (drawELDLog example_browser no_driving_day i) = Some TypeError"
    by (simp add: drawELDLog_def)
  from v a r t e show ?thesis by simp
qed


subsection \<open>The driving of a shift\<close>

lemma shift_cap_append:
  "shift_cap d o1 (xs @ ys) \<longleftrightarrow>
     shift_cap d o1 xs
     \<and> shift_cap (fst (shift_after d o1 xs)) (snd (shift_after d o1 xs)) ys"
  by (induction d o1 xs rule: shift_cap.induct) auto

lemma shift_after_append:
  "shift_after d o1 (xs @ ys) =
     shift_after (fst (shift_after d o1 xs)) (snd (shift_after d o1 xs)) ys"
  by (induction d o1 xs rule: shift_after.induct) auto

lemma chain_append:
  "chain t (xs @ [s]) e \<longleftrightarrow> chain t xs (start_hour s) \<and> start_hour s < end_hour s \<and> end_hour s = e"
  by (induction xs arbitrary: t) auto

lemma emitted_emit:
  "emitted (emit s h n st) =
     emitted st @ [\<lparr>ds_status = s, start_hour = elapsed st, end_hour = elapsed st + h, ds_note = n\<rparr>]"
  "elapsed (emit s h n st) = elapsed st + h"
  "clock (emit s h n st) = clock st"
  by (simp_all add: emit_def)

lemma segment_hours_emit:
  "segment_hours (emitted (emit s h n st)) = segment_hours (emitted st) @ [(s, h)]"
  by (simp add: segment_hours_def emitted_emit duration_def)

lemma chain_emit:
  "0 < h \<Longrightarrow> chain 0 (emitted st) (elapsed st) \<Longrightarrow>
     chain 0 (emitted (emit s h n st)) (elapsed (emit s h n st))"
  by (simp add: emitted_emit chain_append)

text \<open>Each thing the engine does keeps \<open>engine_inv\<close>.\<close>

lemma inv_initial: "engine_inv (initial_state ti)"
  by (simp add: engine_inv_def initial_state_def segment_hours_def)

lemma inv_drive_for:
  assumes "engine_inv st" and "0 \<le> d" and "d \<le> 11 - driving_hrs_this_shift (clock st)"
  shows "engine_inv (drive_for d st)"
proof (cases "0 < d")
  case False
  with assms(1) show ?thesis by (simp add: drive_for_def)
next
  case True
  let ?e = "emit driving d None st"
  have st': "drive_for d st = ?e\<lparr>clock := advance_driving d (d * avg_speed) (clock st),
               remaining_mi := remaining_mi st - d * avg_speed\<rparr>"
    using True by (simp add: drive_for_def)
  note i = assms(1) [unfolded engine_inv_def]
  have c: "chain 0 (emitted ?e) (elapsed ?e)" using i True by (intro chain_emit) simp_all
  show ?thesis
    unfolding engine_inv_def st' using i c assms(3) True
    by (simp add: segment_hours_emit shift_cap_append shift_after_append advance_driving_def)
qed

lemma inv_take_break: "engine_inv st \<Longrightarrow> engine_inv (take_break st)"
proof -
  assume a: "engine_inv st"
  let ?e = "emit off_duty (1 / 2) (Some ''30-min break'') st"
  note i = a [unfolded engine_inv_def]
  have c: "chain 0 (emitted ?e) (elapsed ?e)" using i by (intro chain_emit) simp_all
  show ?thesis
    unfolding engine_inv_def take_break_def using i c
    by (simp add: segment_hours_emit shift_cap_append shift_after_append advance_off_duty_def
          reset_break_def)
qed

lemma inv_take_fuel: "engine_inv st \<Longrightarrow> engine_inv (take_fuel st)"
  by (simp add: engine_inv_def take_fuel_def)

lemma inv_end_shift: "engine_inv st \<Longrightarrow> engine_inv (end_shift st)"
proof -
  assume a: "engine_inv st"
  let ?e = "emit off_duty 10 None st"
  note i = a [unfolded engine_inv_def]
  have c: "chain 0 (emitted ?e) (elapsed ?e)" using i by (intro chain_emit) simp_all
  show ?thesis
    unfolding engine_inv_def end_shift_def using i c
    by (simp add: segment_hours_emit shift_cap_append shift_after_append advance_off_duty_def)
qed

lemma inv_on_duty:
  assumes "engine_inv st" and "0 < h"
  shows "engine_inv ((emit on_duty h n st)\<lparr>clock := advance_on_duty h (clock st)\<rparr>)"
proof -
  let ?e = "emit on_duty h n st"
  note i = assms(1) [unfolded engine_inv_def]
  have c: "chain 0 (emitted ?e) (elapsed ?e)" using i assms(2) by (intro chain_emit) simp_all
  show ?thesis
    unfolding engine_inv_def using i c
    by (simp add: segment_hours_emit shift_cap_append shift_after_append advance_on_duty_def)
qed

lemma inv_do_pickup: "engine_inv st \<Longrightarrow> engine_inv (do_pickup st)"
  unfolding do_pickup_def by (rule inv_on_duty) (simp_all add: pickup_hours_def)

lemma inv_do_dropoff: "engine_inv st \<Longrightarrow> engine_inv (do_dropoff st)"
  unfolding do_dropoff_def Let_def
  by (rule inv_on_duty) (simp_all add: dropoff_hours_def inv_end_shift)

lemma inv_apply_trigger: "engine_inv st \<Longrightarrow> engine_inv (apply_trigger st)"
  by (simp add: apply_trigger_def inv_take_break inv_take_fuel inv_end_shift
        split: option.splits Trigger.splits)

lemma next_drive_le_shift:
  "driving_hrs_this_shift (clock st) \<le> 11 \<Longrightarrow>
     next_drive st \<le> 11 - driving_hrs_this_shift (clock st)"
  by (simp add: next_drive_def Let_def max_def min_def)

lemma inv_step:
  assumes "engine_inv st" and "step st = Inr st'"
  shows "engine_inv st'"
proof -
  from assms(2) have st': "st' = apply_trigger (drive_for (next_drive st) st)"
    by (auto simp: step_def check_cycle_def split: if_splits)
  have "driving_hrs_this_shift (clock st) \<le> 11" using assms(1) by (simp add: engine_inv_def)
  then have "engine_inv (drive_for (next_drive st) st)"
    by (intro inv_drive_for assms(1) next_drive_nonneg next_drive_le_shift)
  then show ?thesis unfolding st' by (rule inv_apply_trigger)
qed

lemma inv_run: "engine_inv st \<Longrightarrow> run st = Inr st' \<Longrightarrow> engine_inv st'"
proof (induction st rule: run.induct)
  case (1 st)
  show ?case
  proof (cases "\<not> clock_ok (clock st) \<or> remaining_mi st \<le> 0")
    case True
    with 1(2,3) show ?thesis by (auto simp: run.simps [of st] split: if_splits)
  next
    case False
    with 1(3) obtain st1 where s: "step st = Inr st1" and r: "run st1 = Inr st'"
      by (auto simp: run.simps [of st] split: sum.splits)
    from inv_step [OF 1(2) s] have "engine_inv st1" .
    with 1(1) False s r show ?thesis by auto
  qed
qed

text \<open>Splitting a segment leaves the cap as it is.\<close>

lemma shift_cap_two_pieces:
  assumes "0 \<le> h1" and "0 \<le> h2"
  shows "shift_cap d o1 ((s, h1) # (s, h2) # ys) = shift_cap d o1 ((s, h1 + h2) # ys)"
  using assms by (cases s) (auto simp: add.assoc)

lemma next_boundary:
  fixes t :: rat
  shows "t < 24 * (of_int \<lfloor>t / 24\<rfloor> + 1)"
proof -
  have "t / 24 < of_int \<lfloor>t / 24\<rfloor> + 1" by linarith
  then show ?thesis by simp
qed

lemma shift_cap_split:
  "start_hour s \<le> end_hour s \<Longrightarrow>
     shift_cap d o1 (segment_hours (split_segment s) @ ys)
     = shift_cap d o1 ((ds_status s, duration s) # ys)"
proof (induction s arbitrary: d o1 rule: split_segment.induct)
  case (1 s)
  define b where "b = 24 * (of_int \<lfloor>start_hour s / 24\<rfloor> + 1 :: rat)"
  show ?case
  proof (cases "end_hour s \<le> b")
    case True
    then show ?thesis
      by (subst split_segment.simps) (simp add: b_def segment_hours_def Let_def)
  next
    case False
    have sb: "start_hour s < b" unfolding b_def by (rule next_boundary)
    have split: "split_segment s = s\<lparr>end_hour := b\<rparr> # split_segment (s\<lparr>start_hour := b\<rparr>)"
      using False by (subst split_segment.simps) (simp add: b_def Let_def)
    have ih: "shift_cap d' o' (segment_hours (split_segment (s\<lparr>start_hour := b\<rparr>)) @ ys)
              = shift_cap d' o' ((ds_status s, end_hour s - b) # ys)" for d' o'
      using "1.IH" [OF b_def False, of d' o'] False by (simp add: duration_def)
    have "shift_cap d o1 (segment_hours (split_segment s) @ ys)
          = shift_cap d o1 ((ds_status s, b - start_hour s)
                            # (segment_hours (split_segment (s\<lparr>start_hour := b\<rparr>)) @ ys))"
      by (simp add: split segment_hours_def duration_def)
    also have "\<dots> = shift_cap d o1 ((ds_status s, b - start_hour s)
                                    # (ds_status s, end_hour s - b) # ys)"
      by (cases "ds_status s") (simp_all add: ih)
    also have "\<dots> = shift_cap d o1 ((ds_status s, (b - start_hour s) + (end_hour s - b)) # ys)"
      using sb False by (intro shift_cap_two_pieces) simp_all
    finally show ?thesis by (simp add: duration_def)
  qed
qed

lemma shift_cap_pieces:
  "chain t segs e \<Longrightarrow>
     shift_cap d o1 (segment_hours (concat (map split_segment segs)) @ ys)
     = shift_cap d o1 (segment_hours segs @ ys)"
proof (induction segs arbitrary: t d o1)
  case Nil
  then show ?case by (simp add: segment_hours_def)
next
  case (Cons s segs)
  from Cons.prems have le: "start_hour s \<le> end_hour s" and c: "chain (end_hour s) segs e"
    by simp_all
  have ih: "shift_cap d' o' (segment_hours (concat (map split_segment segs)) @ ys)
            = shift_cap d' o' (segment_hours segs @ ys)" for d' o'
    by (rule Cons.IH [OF c])
  have "shift_cap d o1 (segment_hours (concat (map split_segment (s # segs))) @ ys)
        = shift_cap d o1 (segment_hours (split_segment s)
                          @ (segment_hours (concat (map split_segment segs)) @ ys))"
    by (simp add: segment_hours_def)
  also have "\<dots> = shift_cap d o1 ((ds_status s, duration s)
                                  # (segment_hours (concat (map split_segment segs)) @ ys))"
    by (rule shift_cap_split [OF le])
  also have "\<dots> = shift_cap d o1 ((ds_status s, duration s) # (segment_hours segs @ ys))"
    by (cases "ds_status s") (simp_all add: ih)
  finally show ?case by (simp add: segment_hours_def)
qed

text \<open>The buckets, laid end to end, are the pieces in their order.\<close>

lemma segment_hours_day_window:
  "segment_hours (map to_day_window ps) = segment_hours ps"
  by (simp add: segment_hours_def to_day_window_def duration_def)

lemma concat_replicate_Nil: "concat (replicate n []) = []"
  by (induction n) simp_all

lemma place_last:
  assumes "length bs \<le> day_index p + 1"
  shows "concat (place bs p) = concat bs @ [to_day_window p]"
    and "length (place bs p) = day_index p + 1"
proof -
  define k where "k = day_index p"
  define bs' where "bs' = bs @ replicate (k + 1 - length bs) []"
  have len: "length bs' = k + 1" using assms by (simp add: bs'_def k_def)
  then have ne: "bs' \<noteq> []" by auto
  have cc: "concat bs' = concat bs" by (simp add: bs'_def concat_replicate_Nil)
  have pl: "place bs p = bs'[k := bs' ! k @ [to_day_window p]]"
    by (simp add: place_def Let_def k_def bs'_def)
  have bl: "bs' = butlast bs' @ [last bs']" using ne by simp
  have lb: "length (butlast bs') = k" using len by simp
  have nk: "bs' ! k = last bs'" using ne len by (simp add: last_conv_nth)
  have "place bs p = (butlast bs' @ [last bs'])[k := last bs' @ [to_day_window p]]"
    unfolding pl nk using bl by simp
  also have "\<dots> = butlast bs' @ [last bs' @ [to_day_window p]]"
    using lb by (simp add: list_update_append)
  finally have eq: "place bs p = butlast bs' @ [last bs' @ [to_day_window p]]" .
  have "concat (place bs p) = concat (butlast bs' @ [last bs']) @ [to_day_window p]"
    unfolding eq by simp
  then show "concat (place bs p) = concat bs @ [to_day_window p]"
    using bl cc by simp
  show "length (place bs p) = day_index p + 1"
    unfolding eq using lb by (simp add: k_def)
qed

lemma foldl_place:
  assumes "sorted (map day_index ps)" and "\<forall>p\<in>set ps. length bs \<le> day_index p + 1"
  shows "concat (foldl place bs ps) = concat bs @ map to_day_window ps"
  using assms
proof (induction ps arbitrary: bs)
  case Nil
  then show ?case by simp
next
  case (Cons p ps)
  from Cons.prems(2) have l: "length bs \<le> day_index p + 1" by simp
  note pl = place_last [OF l]
  have s: "sorted (map day_index ps)" using Cons.prems(1) by simp
  have b: "\<forall>q\<in>set ps. length (place bs p) \<le> day_index q + 1"
    using Cons.prems(1) by (auto simp: pl(2))
  from Cons.IH [OF s b] show ?case by (simp add: pl(1))
qed

text \<open>The pieces of segments that follow one another come day after day.\<close>

lemma split_days:
  "start_hour s < end_hour s \<Longrightarrow> 0 \<le> start_hour s \<Longrightarrow>
     sorted (map day_index (split_segment s))
     \<and> (\<forall>p\<in>set (split_segment s).
           nat \<lfloor>start_hour s / 24\<rfloor> \<le> day_index p \<and> day_index p \<le> nat \<lfloor>end_hour s / 24\<rfloor>)"
proof (induction s rule: split_segment.induct)
  case (1 s)
  define b where "b = 24 * (of_int \<lfloor>start_hour s / 24\<rfloor> + 1 :: rat)"
  have sb: "start_hour s < b" unfolding b_def by (rule next_boundary)
  have mono: "nat \<lfloor>start_hour s / 24\<rfloor> \<le> nat \<lfloor>end_hour s / 24\<rfloor>"
    using "1.prems"(1) by (intro nat_mono floor_mono divide_right_mono) simp_all
  show ?case
  proof (cases "end_hour s \<le> b")
    case True
    then have "split_segment s = [s]"
      by (subst split_segment.simps) (simp add: b_def Let_def)
    with mono show ?thesis by (simp add: day_index_def)
  next
    case False
    have split: "split_segment s = s\<lparr>end_hour := b\<rparr> # split_segment (s\<lparr>start_hour := b\<rparr>)"
      using False by (subst split_segment.simps) (simp add: b_def Let_def)
    have b0: "0 \<le> b" using sb "1.prems"(2) by simp
    have fb: "\<lfloor>b / 24\<rfloor> = \<lfloor>start_hour s / 24\<rfloor> + 1"
    proof -
      have "b / 24 = of_int (\<lfloor>start_hour s / 24\<rfloor> + 1)" by (simp add: b_def)
      then show ?thesis by (simp only: floor_of_int)
    qed
    from "1.IH" [OF b_def False] False b0
    have ih: "sorted (map day_index (split_segment (s\<lparr>start_hour := b\<rparr>)))"
      "\<forall>p\<in>set (split_segment (s\<lparr>start_hour := b\<rparr>)).
           nat \<lfloor>b / 24\<rfloor> \<le> day_index p \<and> day_index p \<le> nat \<lfloor>end_hour s / 24\<rfloor>"
      by simp_all
    have d1: "day_index (s\<lparr>end_hour := b\<rparr>) = nat \<lfloor>start_hour s / 24\<rfloor>"
      by (simp add: day_index_def)
    have le: "nat \<lfloor>start_hour s / 24\<rfloor> \<le> nat \<lfloor>b / 24\<rfloor>"
      unfolding fb by simp
    show ?thesis
      unfolding split using ih d1 le mono by auto
  qed
qed

lemma pieces_sorted:
  "chain t segs e \<Longrightarrow> 0 \<le> t \<Longrightarrow>
     sorted (map day_index (concat (map split_segment segs)))
     \<and> (\<forall>p\<in>set (concat (map split_segment segs)). nat \<lfloor>t / 24\<rfloor> \<le> day_index p)"
proof (induction segs arbitrary: t)
  case Nil
  then show ?case by simp
next
  case (Cons s segs)
  from Cons.prems have st: "start_hour s = t" and lt: "t < end_hour s"
    and c: "chain (end_hour s) segs e" by simp_all
  have e0: "0 \<le> end_hour s" using lt Cons.prems(2) by simp
  from split_days [of s] st lt Cons.prems(2)
  have a: "sorted (map day_index (split_segment s))"
    "\<forall>p\<in>set (split_segment s). nat \<lfloor>t / 24\<rfloor> \<le> day_index p
        \<and> day_index p \<le> nat \<lfloor>end_hour s / 24\<rfloor>"
    by simp_all
  from Cons.IH [OF c e0]
  have b: "sorted (map day_index (concat (map split_segment segs)))"
    "\<forall>p\<in>set (concat (map split_segment segs)). nat \<lfloor>end_hour s / 24\<rfloor> \<le> day_index p"
    by simp_all
  have mono: "nat \<lfloor>t / 24\<rfloor> \<le> nat \<lfloor>end_hour s / 24\<rfloor>"
    using lt by (intro nat_mono floor_mono divide_right_mono) simp_all
  have "sorted (map day_index (split_segment s) @ map day_index (concat (map split_segment segs)))"
    unfolding sorted_append using a b by fastforce
  moreover have "\<forall>p\<in>set (concat (map split_segment (s # segs))). nat \<lfloor>t / 24\<rfloor> \<le> day_index p"
    using a(2) b(2) mono by fastforce
  ultimately show ?case by simp
qed

lemma concat_buckets:
  assumes "chain 0 segs e"
  shows "concat (buckets segs) = map to_day_window (concat (map split_segment segs))"
proof -
  from pieces_sorted [OF assms]
  have "sorted (map day_index (concat (map split_segment segs)))" by simp
  from foldl_place [OF this, of "[]"] show ?thesis by (simp add: buckets_def)
qed

lemma days_segments: "map dl_segments (build_days total_mi segs) = buckets segs"
proof -
  have "map dl_segments (build_days total_mi segs) = map snd (enumerate 0 (buckets segs))"
    unfolding build_days_def by (simp add: case_prod_beta comp_def)
  then show ?thesis by simp
qed

text \<open>The running sum is enough: a list it accepts keeps every stretch without a reset
  within 11 hours of driving.\<close>

lemma reset_block_Nil: "\<not> reset_block []"
  by (simp add: reset_block_def)

lemma has_reset_suffix: "has_reset xs \<Longrightarrow> has_reset (x # xs)"
proof -
  assume "has_reset xs"
  then obtain us vs ws where "xs = us @ vs @ ws" and r: "reset_block vs"
    by (auto simp: has_reset_def)
  then have "x # xs = (x # us) @ vs @ ws" by simp
  with r show ?thesis unfolding has_reset_def by blast
qed

text \<open>A reset in a list whose head is an off-duty segment of \<open>a\<close> hours is a reset in the
  list with the rest segments \<open>ys\<close> in place of that head, when \<open>ys\<close> are worth at least
  \<open>a\<close> hours.\<close>

lemma has_reset_head:
  assumes "has_reset ((off_duty, a) # xs)"
    and "list_all (\<lambda>(s, h). is_rest s) ys" and "a \<le> sum_list (map snd ys)"
  shows "has_reset (zs @ ys @ xs)"
proof -
  from assms(1) obtain us vs ws where
    eq: "(off_duty, a) # xs = us @ vs @ ws" and r: "reset_block vs"
    by (auto simp: has_reset_def)
  show ?thesis
  proof (cases us)
    case Nil
    with eq r obtain vs' where vs: "vs = (off_duty, a) # vs'" and xs: "xs = vs' @ ws"
      by (cases vs) (auto simp: reset_block_Nil)
    have "reset_block (ys @ vs')"
      using r assms(2,3) by (auto simp: reset_block_def vs)
    moreover have "zs @ ys @ xs = zs @ (ys @ vs') @ ws" by (simp add: xs)
    ultimately show ?thesis unfolding has_reset_def by blast
  next
    case (Cons u us')
    with eq have "xs = us' @ vs @ ws" by simp
    then have "zs @ ys @ xs = (zs @ ys @ us') @ vs @ ws" by simp
    with r show ?thesis unfolding has_reset_def by blast
  qed
qed

lemma quiet_if_no_reset:
  "\<not> has_reset ((off_duty, a) # xs) \<Longrightarrow> quiet a xs"
proof (induction xs arbitrary: a)
  case Nil
  then show ?case by simp
next
  case (Cons x xs)
  obtain s h where x: "x = (s, h)" by (cases x)
  show ?case
  proof (cases "is_rest s")
    case True
    have "a + h < 10"
    proof (rule ccontr)
      assume "\<not> a + h < 10"
      then have "reset_block [(off_duty, a), (s, h)]"
        using True by (simp add: reset_block_def is_rest_def)
      then have "has_reset ((off_duty, a) # x # xs)"
        unfolding has_reset_def x
        by (intro exI [of _ "[]"] exI [of _ "[(off_duty, a), (s, h)]"] exI [of _ xs]) simp
      with Cons.prems show False by simp
    qed
    moreover have "\<not> has_reset ((off_duty, a + h) # xs)"
    proof
      assume "has_reset ((off_duty, a + h) # xs)"
      from has_reset_head [OF this, of "[(off_duty, a), (s, h)]" "[]"] True
      have "has_reset ((off_duty, a) # (s, h) # xs)" by (simp add: is_rest_def)
      with Cons.prems show False by (simp add: x)
    qed
    ultimately show ?thesis using True Cons.IH by (simp add: x)
  next
    case False
    have "\<not> has_reset ((off_duty, 0) # xs)"
    proof
      assume "has_reset ((off_duty, 0) # xs)"
      from has_reset_head [OF this, of "[]" "[(off_duty, a), (s, h)]"]
      have "has_reset ((off_duty, a) # (s, h) # xs)" by simp
      with Cons.prems show False by (simp add: x)
    qed
    then show ?thesis using False Cons.IH by (simp add: x)
  qed
qed

lemma quiet_after_duty:
  assumes "\<not> has_reset (x # xs)"
  shows "quiet 0 xs"
proof (rule quiet_if_no_reset, rule notI)
  assume "has_reset ((off_duty, 0) # xs)"
  from has_reset_head [OF this, of "[]" "[x]"] have "has_reset (x # xs)" by simp
  with assms show False by simp
qed

lemma driving_hours_simps:
  "driving_hours [] = 0"
  "driving_hours ((s, h) # xs) = (if s = driving then h else 0) + driving_hours xs"
  by (simp_all add: driving_hours_def)

lemma quiet_driving:
  "quiet off xs \<Longrightarrow> shift_cap d off xs \<Longrightarrow> driving_hours xs = 0 \<or> d + driving_hours xs \<le> 11"
proof (induction off xs arbitrary: d rule: quiet.induct)
  case (1 off)
  then show ?case by (simp add: driving_hours_simps)
next
  case (2 off s h xs)
  show ?case
  proof (cases s)
    case driving
    with "2.prems" have le: "d + h \<le> 11" and c: "shift_cap (d + h) 0 xs" and q: "quiet 0 xs"
      by (simp_all add: is_rest_def)
    have "\<not> is_rest s" using driving by (simp add: is_rest_def)
    from "2.IH"(2) [OF this q c]
    have "driving_hours xs = 0 \<or> d + h + driving_hours xs \<le> 11" .
    with le driving show ?thesis by (auto simp: driving_hours_simps)
  next
    case on_duty
    with "2.prems" have c: "shift_cap d 0 xs" and q: "quiet 0 xs"
      by (simp_all add: is_rest_def)
    have "\<not> is_rest s" using on_duty by (simp add: is_rest_def)
    from "2.IH"(2) [OF this q c] on_duty show ?thesis by (simp add: driving_hours_simps)
  next
    case off_duty
    with "2.prems" have c: "shift_cap d (off + h) xs" and q: "quiet (off + h) xs"
      by (simp_all add: is_rest_def)
    have "is_rest s" using off_duty by (simp add: is_rest_def)
    from "2.IH"(1) [OF this q c] off_duty show ?thesis by (simp add: driving_hours_simps)
  next
    case sleeper
    with "2.prems" have c: "shift_cap d (off + h) xs" and q: "quiet (off + h) xs"
      by (simp_all add: is_rest_def)
    have "is_rest s" using sleeper by (simp add: is_rest_def)
    from "2.IH"(1) [OF this q c] sleeper show ?thesis by (simp add: driving_hours_simps)
  qed
qed

lemma no_reset_driving:
  "shift_cap d off xs \<Longrightarrow> \<not> has_reset xs \<Longrightarrow> 0 \<le> d \<Longrightarrow> driving_hours xs \<le> 11"
proof (induction xs arbitrary: d off)
  case Nil
  then show ?case by (simp add: driving_hours_simps)
next
  case (Cons x xs)
  obtain s h where x: "x = (s, h)" by (cases x)
  have nr: "\<not> has_reset xs" using Cons.prems(2) has_reset_suffix by blast
  have q: "quiet 0 xs" by (rule quiet_after_duty [OF Cons.prems(2)])
  show ?case
  proof (cases s)
    case off_duty
    with Cons.prems(1) have "shift_cap (if 10 \<le> off + h then 0 else d) (off + h) xs"
      by (simp add: x)
    from Cons.IH [OF this nr] Cons.prems(3) off_duty show ?thesis
      by (simp add: x driving_hours_simps)
  next
    case sleeper
    with Cons.prems(1) have "shift_cap (if 10 \<le> off + h then 0 else d) (off + h) xs"
      by (simp add: x)
    from Cons.IH [OF this nr] Cons.prems(3) sleeper show ?thesis
      by (simp add: x driving_hours_simps)
  next
    case driving
    with Cons.prems(1) have le: "d + h \<le> 11" and c: "shift_cap (d + h) 0 xs"
      by (simp_all add: x)
    from quiet_driving [OF q c] le Cons.prems(3) driving show ?thesis
      by (auto simp: x driving_hours_simps)
  next
    case on_duty
    with Cons.prems(1) have c: "shift_cap d 0 xs" by (simp add: x)
    from quiet_driving [OF q c] Cons.prems(3) on_duty show ?thesis
      by (auto simp: x driving_hours_simps)
  qed
qed

lemma shift_after_nonneg:
  "0 \<le> d \<Longrightarrow> \<forall>(s, h)\<in>set xs. 0 \<le> h \<Longrightarrow> 0 \<le> fst (shift_after d off xs)"
  by (induction d off xs rule: shift_after.induct) auto

lemma shift_cap_within:
  assumes "shift_cap 0 0 xs" and "\<forall>(s, h)\<in>set xs. 0 \<le> h"
  shows "shifts_within_cap xs"
  unfolding shifts_within_cap_def
proof (intro allI impI, elim conjE)
  fix us vs ws
  assume eq: "xs = us @ vs @ ws" and nr: "\<not> has_reset vs"
  let ?d = "fst (shift_after 0 0 us)" and ?o = "snd (shift_after 0 0 us)"
  from assms(1) have "shift_cap ?d ?o vs"
    unfolding eq by (simp add: shift_cap_append)
  moreover have "0 \<le> ?d"
    using assms(2) unfolding eq by (intro shift_after_nonneg) auto
  ultimately show "driving_hours vs \<le> 11"
    using nr by (intro no_reset_driving)
qed

text \<open>No piece of a segment has a negative length.\<close>

lemma split_pieces_pos:
  "start_hour s < end_hour s \<Longrightarrow> \<forall>p\<in>set (split_segment s). 0 \<le> duration p"
proof (induction s rule: split_segment.induct)
  case (1 s)
  define b where "b = 24 * (of_int \<lfloor>start_hour s / 24\<rfloor> + 1 :: rat)"
  have sb: "start_hour s < b" unfolding b_def by (rule next_boundary)
  show ?case
  proof (cases "end_hour s \<le> b")
    case True
    then have "split_segment s = [s]"
      by (subst split_segment.simps) (simp add: b_def Let_def)
    with "1.prems" show ?thesis by (simp add: duration_def)
  next
    case False
    have split: "split_segment s = s\<lparr>end_hour := b\<rparr> # split_segment (s\<lparr>start_hour := b\<rparr>)"
      using False by (subst split_segment.simps) (simp add: b_def Let_def)
    from "1.IH" [OF b_def False] False
    have "\<forall>p\<in>set (split_segment (s\<lparr>start_hour := b\<rparr>)). 0 \<le> duration p" by simp
    with sb show ?thesis unfolding split by (simp add: duration_def)
  qed
qed

lemma pieces_pos:
  "chain t segs e \<Longrightarrow> \<forall>p\<in>set (concat (map split_segment segs)). 0 \<le> duration p"
proof (induction segs arbitrary: t)
  case Nil
  then show ?case by simp
next
  case (Cons s segs)
  from Cons.prems have lt: "start_hour s < end_hour s" and c: "chain (end_hour s) segs e"
    by simp_all
  from split_pieces_pos [OF lt] Cons.IH [OF c] show ?case by auto
qed

lemma build_ok:
  assumes "engine_inv st"
  shows "shift_driving_ok (build ti st)"
proof -
  from assms have c: "chain 0 (emitted st) (elapsed st)"
    and s: "shift_cap 0 0 (segment_hours (emitted st))"
    by (simp_all add: engine_inv_def)
  have eq: "segment_hours (concat (map dl_segments (sr_days (build ti st))))
        = segment_hours (concat (map split_segment (emitted st)))"
    by (simp add: build_def Let_def days_segments concat_buckets [OF c] segment_hours_day_window)
  have cap: "shift_cap 0 0 (segment_hours (concat (map split_segment (emitted st))))"
    using shift_cap_pieces [OF c, of 0 0 "[]"] s by simp
  have "\<forall>(s, h)\<in>set (segment_hours (concat (map split_segment (emitted st)))). 0 \<le> h"
    using pieces_pos [OF c] unfolding segment_hours_def by auto
  from shift_cap_within [OF cap this] show ?thesis
    unfolding shift_driving_ok_def by (simp only: eq)
qed

lemma shift_cap_examples:
  "shift_cap 0 0 [(on_duty, 1), (driving, 8), (off_duty, 1 / 2), (driving, 3), (off_duty, 4),
                  (sleeper, 6), (driving, 11)]"
  "\<not> shift_cap 0 0 [(driving, 6), (off_duty, 9), (driving, 6)]"
  "\<not> shift_cap 0 0 [(driving, 8), (off_duty, 1 / 2), (driving, 7 / 2)]"
  by simp_all

lemma shifts_within_cap_examples:
  "\<not> shifts_within_cap [(driving, 6), (off_duty, 9), (driving, 6)]"
proof -
  have "\<not> has_reset [(driving, 6), (off_duty, 9), (driving, 6)]"
    unfolding has_reset_def
    by (auto simp: append_eq_Cons_conv Cons_eq_append_conv reset_block_def is_rest_def)
  moreover have "driving_hours [(driving, 6), (off_duty, 9), (driving, 6)] = 12"
    by (simp add: driving_hours_def)
  ultimately show ?thesis
    unfolding shifts_within_cap_def
    by (intro notI) (drule spec [of _ "[]"], drule spec [of _ "[(driving, 6), (off_duty, 9), (driving, 6)]"], drule spec [of _ "[]"], simp)
qed

text \<open>
  C5, on the engine as the specification describes it. Whenever \<open>plan\<close> returns a
  schedule, take the segments of its days, day after day: in every stretch of them that
  holds no off-duty or sleeper block of 10 hours or more, that is within a single shift,
  the driving segments add up to at most 11 hours.
\<close>

theorem C5_shift_driving_cap:
  assumes "plan ti = Inr r"
  shows "shift_driving_ok r"
proof -
  from assms obtain st0 st1 st2 where
    p: "check_cycle (do_pickup (initial_state ti)) = Inr st0"
    and r: "run st0 = Inr st1"
    and d: "check_cycle (do_dropoff st1) = Inr st2"
    and b: "r = build ti st2"
    by (auto simp: plan_def split: if_splits sum.splits)
  from p have "st0 = do_pickup (initial_state ti)"
    by (simp add: check_cycle_def split: if_splits)
  then have "engine_inv st0" by (simp add: inv_do_pickup inv_initial)
  from inv_run [OF this r] have "engine_inv st1" .
  then have "engine_inv (do_dropoff st1)" by (rule inv_do_dropoff)
  moreover from d have "st2 = do_dropoff st1"
    by (simp add: check_cycle_def split: if_splits)
  ultimately show ?thesis unfolding b by (simp add: build_ok)
qed

text \<open>The engine on the five scenarios of section 8: days, hours of driving, the miles
  of the fuel stops, the number of breaks; or the error.\<close>

lemma plan_scenarios:
  "outline (plan (scenario 300 0)) = Inr (1, 60 / 11, [], 0)"
  "outline (plan (scenario 855 14)) = Inr (2, 171 / 11, [], 1)"
  "outline (plan (scenario 1200 0)) = Inr (2, 240 / 11, [1000], 2)"
  "outline (plan (scenario 2000 68)) = Inl CycleExceeded"
  "outline (plan (scenario 855 71)) = Inl InvalidInput"
  by code_simp+

theorem C5_shift_driving_cap_witness:
  "plan (scenario 855 14) = Inr (projr (plan (scenario 855 14)))
   \<and> shift_driving_ok (projr (plan (scenario 855 14)))"
proof -
  have "\<not> isl (plan (scenario 855 14))"
    using plan_scenarios(2) by (cases "plan (scenario 855 14)") (simp_all add: outline_def)
  then have h: "plan (scenario 855 14) = Inr (projr (plan (scenario 855 14)))"
    by simp
  from C5_shift_driving_cap [OF h] h show ?thesis by blast
qed

subsection \<open>The clock label\<close>

text \<open>
  For an hour of the day the label has the hour of the 12-hour clock, the rounded minute
  on two digits and AM before noon, PM from noon on; the rounded minute runs from 0 to
  60, both included.
\<close>

lemma js_toString_int: "0 \<le> i \<Longrightarrow> js_toString (Fin (of_int i)) = digits_of (nat i)"
  by (simp add: Let_def)

lemma fmtHr_clock:
  assumes "0 \<le> t" and "t < 24"
  shows "fmtHr (Fin t) =
           digits_of (nat (hour12 \<lfloor>t\<rfloor>)) @ '':''
           @ padStart 2 (CHR ''0'') (digits_of (nat \<lfloor>(t - of_int \<lfloor>t\<rfloor>) * 60 + 1 / 2\<rfloor>))
           @ '' '' @ (if \<lfloor>t\<rfloor> < 12 then ''AM'' else ''PM'')"
    and "0 \<le> \<lfloor>(t - of_int \<lfloor>t\<rfloor>) * 60 + 1 / 2\<rfloor>"
    and "\<lfloor>(t - of_int \<lfloor>t\<rfloor>) * 60 + 1 / 2\<rfloor> \<le> 60"
proof -
  define h where "h = \<lfloor>t\<rfloor>"
  define m where "m = \<lfloor>(t - of_int h) * 60 + 1 / 2\<rfloor>"
  have h0: "0 \<le> h" using assms(1) by (simp add: h_def)
  have fr: "0 \<le> t - of_int h" "t - of_int h < 1" unfolding h_def by linarith+
  show m0: "0 \<le> \<lfloor>(t - of_int \<lfloor>t\<rfloor>) * 60 + 1 / 2\<rfloor>"
    using fr(1) unfolding h_def by simp
  have "(t - of_int h) * 60 + 1 / 2 < 61" using fr(2) by simp
  then have "m < 61" unfolding m_def by (simp add: floor_less_iff)
  then show "\<lfloor>(t - of_int \<lfloor>t\<rfloor>) * 60 + 1 / 2\<rfloor> \<le> 60"
    by (simp add: m_def h_def)
  have dh: "(if js_seq (Fin (of_int h)) (Fin 0) then Fin 12
             else if js_gt (Fin (of_int h)) (Fin 12) then js_sub (Fin (of_int h)) (Fin 12)
             else Fin (of_int h)) = Fin (of_int (hour12 h))"
    by (simp add: js_seq_def js_gt_def js_sub_def hour12_def)
  have h12: "0 \<le> hour12 h" using h0 by (simp add: hour12_def)
  have mm: "Math_round (js_mul (js_sub (Fin t) (Fin (of_int h))) (Fin 60)) = Fin (of_int m)"
    by (simp add: js_sub_def m_def)
  have pm: "js_lt (Fin (of_int h)) (Fin 12) \<longleftrightarrow> h < 12" by simp
  have m0': "0 \<le> m" using m0 by (simp add: m_def h_def)
  have "fmtHr (Fin t) =
          js_toString (Fin (of_int (hour12 h))) @ '':''
          @ padStart 2 (CHR ''0'') (js_toString (Fin (of_int m)))
          @ '' '' @ (if h < 12 then ''AM'' else ''PM'')"
    unfolding fmtHr_def Let_def Math_floor.simps h_def [symmetric] dh mm pm ..
  then have "fmtHr (Fin t) =
          digits_of (nat (hour12 h)) @ '':''
          @ padStart 2 (CHR ''0'') (digits_of (nat m))
          @ '' '' @ (if h < 12 then ''AM'' else ''PM'')"
    by (simp only: js_toString_int [OF h12] js_toString_int [OF m0'])
  then show "fmtHr (Fin t) =
           digits_of (nat (hour12 \<lfloor>t\<rfloor>)) @ '':''
           @ padStart 2 (CHR ''0'') (digits_of (nat \<lfloor>(t - of_int \<lfloor>t\<rfloor>) * 60 + 1 / 2\<rfloor>))
           @ '' '' @ (if \<lfloor>t\<rfloor> < 12 then ''AM'' else ''PM'')"
    unfolding m_def h_def .
qed

text \<open>
  C10 fails on the code at its last part. The hour 1.9921875 (one hour and 59.53
  minutes) is printed with the minute 60, which is no minute of a clock: the minute is
  rounded up to 60 and the hour is not moved on.
\<close>

theorem C10_fmtHr_minute_60:
  "fmtHr (Fin (255 / 128)) = ''1:60 AM''"
  by code_simp


end
